theory Spec2Isabelle
  imports Main "HOL-Library.Word" "HOL-Library.Sublist"
begin

unbundle bit_operations_syntax

section \<open>The AAF animation pipeline of esp\_emote\_gfx\<close>

text \<open>
  The development embeds the decoder (\<^verbatim>\<open>gfx_aaf_dec.c\<close>), the container index
  (\<^verbatim>\<open>gfx_aaf_format.c\<close>) and the block renderer (\<^verbatim>\<open>gfx_draw_anim.c\<close>).

  C pointers into byte buffers are modelled as memories: a function from the index
  relative to the pointer to the byte stored there. The C code never consults the size
  of the object behind a pointer, and neither does the model: a length travels as a
  separate argument exactly where the C function takes one. Reads and writes past the
  length are therefore visible in the model as reads and writes at those indices.

  Counters of type \<^verbatim>\<open>size_t\<close> are natural numbers. Where the source subtracts and
  the result can wrap around on realistic inputs, the reduction modulo \<open>2 ^ 32\<close> is written
  out (the targets are 32-bit).
\<close>

type_synonym byte = "8 word"
type_synonym mem = "nat \<Rightarrow> byte"

datatype esp_err = ESP_OK | ESP_FAIL | ESP_ERR_NO_MEM | ESP_ERR_INVALID_CRC

text \<open>\<open>load xs m\<close> is the memory \<open>m\<close> with the bytes \<open>xs\<close> stored from index 0 on.\<close>

definition load :: "'a list \<Rightarrow> (nat \<Rightarrow> 'a) \<Rightarrow> (nat \<Rightarrow> 'a)" where
  "load xs m = (\<lambda>i. if i < length xs then xs ! i else m i)"

text \<open>\<open>ptr_add m k\<close> is the pointer \<^verbatim>\<open>m + k\<close>.\<close>

definition ptr_add :: "(nat \<Rightarrow> 'a) \<Rightarrow> nat \<Rightarrow> (nat \<Rightarrow> 'a)" where
  "ptr_add m k = (\<lambda>i. m (k + i))"

subsection \<open>Frame header and palette\<close>

text \<open>
  \<^verbatim>\<open>gfx_aaf_header_t\<close>. The format and version strings play no role in decoding and
  are left out; \<open>block_len\<close> and \<open>palette\<close> are the two heap arrays the header owns.
\<close>

record gfx_aaf_header =
  bit_depth :: byte
  width :: "16 word"
  height :: "16 word"
  blocks :: "16 word"
  block_height :: "16 word"
  block_len :: "nat \<Rightarrow> 32 word"
  data_offset :: "16 word"
  palette :: mem
  num_colors :: int

text \<open>\<^verbatim>\<open>__builtin_bswap16\<close>.\<close>

definition bswap16 :: "16 word \<Rightarrow> 16 word" where
  "bswap16 x = push_bit 8 x OR drop_bit 8 x"

text \<open>
  \<^verbatim>\<open>gfx_aaf_parse_palette\<close>. The three bytes are promoted to \<^verbatim>\<open>int\<close>, combined, and
  the result is converted to \<^verbatim>\<open>uint16_t\<close>.
\<close>

definition rgb565_of_entry :: "mem \<Rightarrow> nat \<Rightarrow> 32 word" where
  "rgb565_of_entry color k =
     push_bit 8 (ucast (color (k + 2)) AND 0xF8) OR
     push_bit 3 (ucast (color (k + 1)) AND 0xFC) OR
     drop_bit 3 (ucast (color k) AND 0xF8)"

definition gfx_aaf_parse_palette :: "'a gfx_aaf_header_scheme \<Rightarrow> byte \<Rightarrow> bool \<Rightarrow> 16 word" where
  "gfx_aaf_parse_palette header index swap =
     (let k = unat index * 4 in
      if swap then bswap16 (ucast (rgb565_of_entry (palette header) k))
      else ucast (rgb565_of_entry (palette header) k))"

text \<open>
  The specification's wording of the same conversion: the top 5 bits of R go to bits
  15..11, the top 6 bits of G to bits 10..5, the top 5 bits of B to bits 4..0; the swapped
  colour exchanges the two bytes of the 16-bit value.
\<close>

definition spec_truncate_565 :: "byte \<Rightarrow> byte \<Rightarrow> byte \<Rightarrow> 16 word" where
  "spec_truncate_565 r g b =
     push_bit 11 (ucast (drop_bit 3 r)) OR push_bit 5 (ucast (drop_bit 2 g)) OR ucast (drop_bit 3 b)"

definition spec_byte_swap :: "16 word \<Rightarrow> 16 word" where
  "spec_byte_swap x = word_cat (ucast x :: byte) (ucast (drop_bit 8 x) :: byte)"

subsection \<open>Run-length decoding\<close>

text \<open>
  \<^verbatim>\<open>gfx_aaf_rle_decode\<close>. The result carries the status, the output memory, and, as
  an observation of the run, the indices of \<^verbatim>\<open>input\<close> that were read, in order.
  \<open>rle_fill\<close> is the inner \<^verbatim>\<open>for\<close> loop; its third argument is the number of
  iterations left.
\<close>

record rle_result =
  rle_status :: esp_err
  rle_output :: mem
  rle_reads :: "nat list"

primrec rle_fill :: "mem \<Rightarrow> nat \<Rightarrow> nat \<Rightarrow> byte \<Rightarrow> mem" where
  "rle_fill output out_pos 0 v = output"
| "rle_fill output out_pos (Suc n) v = rle_fill (output(out_pos := v)) (Suc out_pos) n v"

function rle_loop :: "mem \<Rightarrow> nat \<Rightarrow> nat \<Rightarrow> mem \<Rightarrow> nat \<Rightarrow> nat \<Rightarrow> nat list \<Rightarrow> rle_result" where
  "rle_loop input input_len output_len output in_pos out_pos reads =
     (if in_pos + 1 \<le> input_len then
        (let count = input in_pos;
             v = input (in_pos + 1);
             reads' = reads @ [in_pos, in_pos + 1]
         in if out_pos + unat count > output_len
            then \<lparr>rle_status = ESP_FAIL, rle_output = output, rle_reads = reads'\<rparr>
            else rle_loop input input_len output_len (rle_fill output out_pos (unat count) v)
                   (in_pos + 2) (out_pos + unat count) reads')
      else \<lparr>rle_status = ESP_OK, rle_output = output, rle_reads = reads\<rparr>)"
  by pat_completeness auto
termination
  by (relation "measure (\<lambda>(input, input_len, output_len, output, in_pos, out_pos, reads).
        input_len - in_pos)") auto

definition gfx_aaf_rle_decode :: "mem \<Rightarrow> nat \<Rightarrow> mem \<Rightarrow> nat \<Rightarrow> rle_result" where
  "gfx_aaf_rle_decode input input_len output output_len =
     rle_loop input input_len output_len output 0 0 []"

text \<open>
  The encoder side of the round trip, from the specification: a stream is a sequence of
  runs, each written as a (count, value) pair of bytes.
\<close>

definition rle_encode :: "(byte \<times> byte) list \<Rightarrow> byte list" where
  "rle_encode runs = concat (map (\<lambda>(c, v). [c, v]) runs)"

definition rle_stream :: "(byte \<times> byte) list \<Rightarrow> byte list" where
  "rle_stream runs = concat (map (\<lambda>(c, v). replicate (unat c) v) runs)"

text \<open>\<open>store_at p xs m\<close> is the memory \<open>m\<close> with the bytes \<open>xs\<close> stored from index \<open>p\<close> on.\<close>

definition store_at :: "nat \<Rightarrow> 'a list \<Rightarrow> (nat \<Rightarrow> 'a) \<Rightarrow> (nat \<Rightarrow> 'a)" where
  "store_at p xs m = (\<lambda>i. if p \<le> i \<and> i < p + length xs then xs ! (i - p) else m i)"

subsection \<open>Huffman engine\<close>

text \<open>
  \<^verbatim>\<open>Node\<close>: a leaf flag, a value, and two children that may be \<^verbatim>\<open>NULL\<close>. The tree
  of one decode call is freshly allocated and never shared, so the pointer structure is
  a tree value. \<^verbatim>\<open>calloc\<close> is taken to succeed (the source does not test its result).
\<close>

datatype node = Node (is_leaf: byte) (val: byte) (left: "node option") (right: "node option")

definition create_node :: node where
  "create_node = Node 0 0 None None"

text \<open>
  The insertion loop \<^verbatim>\<open>for (int bit = code_len - 1; bit >= 0; --bit)\<close>, started at
  \<open>current\<close>. The second argument is \<^verbatim>\<open>bit + 1\<close>, the number of iterations left. The
  function returns the subtree at \<open>current\<close> after the walk has created the missing
  children and marked the last node. A shift count of 64 or more, which C leaves
  undefined, yields 0 here, as \<^const>\<open>drop_bit\<close> does.
\<close>

fun insert_code :: "64 word \<Rightarrow> nat \<Rightarrow> byte \<Rightarrow> node \<Rightarrow> node" where
  "insert_code code 0 byte_val (Node l v lt rt) = Node 1 byte_val lt rt"
| "insert_code code (Suc b) byte_val (Node l v lt rt) =
     (if drop_bit b code AND 1 = 0
      then Node l v
             (Some (insert_code code b byte_val (case lt of None \<Rightarrow> create_node | Some c \<Rightarrow> c))) rt
      else Node l v lt
             (Some (insert_code code b byte_val (case rt of None \<Rightarrow> create_node | Some c \<Rightarrow> c))))"

text \<open>The loop that assembles \<^verbatim>\<open>code\<close> from \<^verbatim>\<open>code_byte_len\<close> bytes.\<close>

primrec read_code :: "mem \<Rightarrow> nat \<Rightarrow> nat \<Rightarrow> 64 word \<Rightarrow> 64 word" where
  "read_code dict_bytes dict_pos 0 code = code"
| "read_code dict_bytes dict_pos (Suc n) code =
     read_code dict_bytes (Suc dict_pos) n (push_bit 8 code OR ucast (dict_bytes dict_pos))"

text \<open>The loop \<^verbatim>\<open>while (dict_pos < dict_len)\<close> that reconstructs the tree.\<close>

function build_tree :: "mem \<Rightarrow> nat \<Rightarrow> nat \<Rightarrow> node \<Rightarrow> node" where
  "build_tree dict_bytes dict_len dict_pos root =
     (if dict_pos < dict_len then
        (let byte_val = dict_bytes dict_pos;
             code_len = dict_bytes (dict_pos + 1);
             code_byte_len = (unat code_len + 7) div 8;
             code = read_code dict_bytes (dict_pos + 2) code_byte_len 0
         in build_tree dict_bytes dict_len (dict_pos + 2 + code_byte_len)
              (insert_code code (unat code_len) byte_val root))
      else root)"
  by pat_completeness auto
termination
  by (relation "measure (\<lambda>(dict_bytes, dict_len, dict_pos, root). dict_len - dict_pos)") auto

text \<open>
  The loop over the bit stream. It returns the output memory and \<^verbatim>\<open>out_pos\<close>; the
  \<^verbatim>\<open>break\<close> on a \<^verbatim>\<open>NULL\<close> child leaves the loop with what has been written so far.
  The store \<^verbatim>\<open>output[out_pos++]\<close> is not guarded by any capacity.
\<close>

function huffman_loop ::
  "mem \<Rightarrow> nat \<Rightarrow> node \<Rightarrow> node \<Rightarrow> mem \<Rightarrow> nat \<Rightarrow> nat \<Rightarrow> mem \<times> nat" where
  "huffman_loop data total_bits root current output out_pos bit_index =
     (if bit_index < total_bits then
        (let byte_idx = bit_index div 8;
             bit_offset = 7 - bit_index mod 8;
             b = drop_bit bit_offset (data byte_idx) AND 1
         in case (if b = 0 then left current else right current) of
              None \<Rightarrow> (output, out_pos)
            | Some nxt \<Rightarrow>
                if is_leaf nxt \<noteq> 0
                then huffman_loop data total_bits root root (output(out_pos := val nxt))
                       (out_pos + 1) (bit_index + 1)
                else huffman_loop data total_bits root nxt output out_pos (bit_index + 1))
      else (output, out_pos))"
  by pat_completeness auto
termination
  by (relation "measure (\<lambda>(data, total_bits, root, current, output, out_pos, bit_index).
        total_bits - bit_index)") auto

text \<open>Conversion of an \<^verbatim>\<open>int\<close> to \<^verbatim>\<open>size_t\<close>.\<close>

definition to_size_t :: "int \<Rightarrow> nat" where
  "to_size_t i = nat (i mod 2 ^ 32)"

record huffman_result =
  huff_status :: esp_err
  huff_output :: mem
  huff_output_len :: nat

text \<open>
  \<^verbatim>\<open>decode_huffman_data\<close>. A pointer argument that may be \<^verbatim>\<open>NULL\<close> is an option.
  \<^verbatim>\<open>total_bits\<close> is \<^verbatim>\<open>data_len * 8 - padding\<close> in \<^verbatim>\<open>size_t\<close> arithmetic.
\<close>

definition decode_huffman_data ::
  "mem option \<Rightarrow> nat \<Rightarrow> mem option \<Rightarrow> nat \<Rightarrow> mem \<Rightarrow> huffman_result" where
  "decode_huffman_data data data_len dict_bytes dict_len output =
     (case (data, dict_bytes) of
        (Some d, Some dict) \<Rightarrow>
          if data_len = 0 \<or> dict_len = 0
          then \<lparr>huff_status = ESP_OK, huff_output = output, huff_output_len = 0\<rparr>
          else
            (let padding = dict 0;
                 root = build_tree dict dict_len 1 create_node;
                 total_bits = to_size_t (int data_len * 8 - int (unat padding));
                 (output', out_pos) = huffman_loop d total_bits root root output 0 0
             in \<lparr>huff_status = ESP_OK, huff_output = output', huff_output_len = out_pos\<rparr>)
      | _ \<Rightarrow> \<lparr>huff_status = ESP_OK, huff_output = output, huff_output_len = 0\<rparr>)"

text \<open>
  \<^verbatim>\<open>gfx_aaf_huffman_decode\<close>. \<open>output_len\<close> is the value the caller's
  \<^verbatim>\<open>*output_len\<close> holds before the call; an early return leaves it as it is.
  Both callers pass a buffer they have tested for \<^verbatim>\<open>output\<close> and the address of a
  local for \<^verbatim>\<open>output_len\<close>, so only \<^verbatim>\<open>buffer\<close> is modelled as nullable.
\<close>

definition gfx_aaf_huffman_decode ::
  "mem option \<Rightarrow> nat \<Rightarrow> mem \<Rightarrow> nat \<Rightarrow> huffman_result" where
  "gfx_aaf_huffman_decode buffer buflen output output_len =
     (case buffer of
        None \<Rightarrow> \<lparr>huff_status = ESP_FAIL, huff_output = output, huff_output_len = output_len\<rparr>
      | Some buf \<Rightarrow>
          if buflen < 1
          then \<lparr>huff_status = ESP_FAIL, huff_output = output, huff_output_len = output_len\<rparr>
          else
            (let dict_len = unat (push_bit 8 (ucast (buf 2)) OR ucast (buf 1) :: 16 word)
             in if buflen < 3 + dict_len
                then \<lparr>huff_status = ESP_FAIL, huff_output = output, huff_output_len = output_len\<rparr>
                else
                  (let data_len = buflen - 3 - dict_len
                   in if data_len = 0
                      then \<lparr>huff_status = ESP_FAIL, huff_output = output,
                             huff_output_len = output_len\<rparr>
                      else
                        (let r = decode_huffman_data (Some (ptr_add buf (3 + dict_len))) data_len
                                   (Some (ptr_add buf 3)) dict_len output
                         in if huff_status r \<noteq> ESP_OK
                            then r\<lparr>huff_status := ESP_FAIL\<rparr>
                            else r\<lparr>huff_status := ESP_OK\<rparr>))))"

text \<open>
  The encoder side of the Huffman round trip, from the specification. A code table is a
  list of (value, code) entries, a code being its bits in the order they are sent. The
  table is serialised as the padding byte followed by, for each entry, the value, the code
  length, and the code as a binary number in \<open>ceil(length / 8)\<close> bytes, big-endian. A
  payload is the concatenation of the codes of the stream's bytes, followed by the
  padding bits, packed eight to a byte with the first bit most significant.
\<close>

type_synonym code_table = "(byte \<times> bool list) list"

definition code_value :: "bool list \<Rightarrow> int" where
  "code_value bs = foldl (\<lambda>n b. 2 * n + (if b then 1 else 0)) 0 bs"

definition be_bytes :: "nat \<Rightarrow> int \<Rightarrow> byte list" where
  "be_bytes n x = map (\<lambda>i. of_int (x div 256 ^ (n - 1 - i))) [0..<n]"

definition table_entry_bytes :: "byte \<times> bool list \<Rightarrow> byte list" where
  "table_entry_bytes e =
     [fst e, of_nat (length (snd e))] @ be_bytes ((length (snd e) + 7) div 8) (code_value (snd e))"

definition huffman_table_bytes :: "nat \<Rightarrow> code_table \<Rightarrow> byte list" where
  "huffman_table_bytes padding tbl = of_nat padding # concat (map table_entry_bytes tbl)"

definition code_for :: "code_table \<Rightarrow> byte \<Rightarrow> bool list" where
  "code_for tbl v = (case map_of tbl v of Some c \<Rightarrow> c | None \<Rightarrow> [])"

definition huffman_bits :: "code_table \<Rightarrow> byte list \<Rightarrow> bool list" where
  "huffman_bits tbl stream = concat (map (code_for tbl) stream)"

definition pack_bits :: "bool list \<Rightarrow> byte list" where
  "pack_bits bs = map (\<lambda>k. of_int (code_value (take 8 (drop (8 * k) bs)))) [0..<length bs div 8]"

definition prefix_free :: "bool list list \<Rightarrow> bool" where
  "prefix_free cs = (distinct cs \<and> (\<forall>c \<in> set cs. \<forall>d \<in> set cs. prefix c d \<longrightarrow> c = d))"

text \<open>
  Three views of the engine used in the proofs: the node a path leads to, the insertion
  of a code given as its bit list, and the decoding loop over a bit list.
\<close>

fun walk :: "node \<Rightarrow> bool list \<Rightarrow> node option" where
  "walk n [] = Some n"
| "walk n (b # bs) =
     (case (if b then right n else left n) of None \<Rightarrow> None | Some c \<Rightarrow> walk c bs)"

fun insert_path :: "bool list \<Rightarrow> byte \<Rightarrow> node \<Rightarrow> node" where
  "insert_path [] byte_val (Node l v lt rt) = Node 1 byte_val lt rt"
| "insert_path (b # bs) byte_val (Node l v lt rt) =
     (if \<not> b
      then Node l v
             (Some (insert_path bs byte_val (case lt of None \<Rightarrow> create_node | Some c \<Rightarrow> c))) rt
      else Node l v lt
             (Some (insert_path bs byte_val (case rt of None \<Rightarrow> create_node | Some c \<Rightarrow> c))))"

definition reaches :: "node \<Rightarrow> bool list \<Rightarrow> bool" where
  "reaches t p = (walk t p \<noteq> None)"

definition leaf_at :: "node \<Rightarrow> bool list \<Rightarrow> byte option" where
  "leaf_at t p =
     (case walk t p of None \<Rightarrow> None | Some n \<Rightarrow> if is_leaf n \<noteq> 0 then Some (val n) else None)"

fun decode_bits :: "node \<Rightarrow> node \<Rightarrow> bool list \<Rightarrow> byte list" where
  "decode_bits root current [] = []"
| "decode_bits root current (b # bs) =
     (case (if b then right current else left current) of
        None \<Rightarrow> []
      | Some nxt \<Rightarrow>
          if is_leaf nxt \<noteq> 0 then val nxt # decode_bits root root bs
          else decode_bits root nxt bs)"

definition data_bit :: "mem \<Rightarrow> nat \<Rightarrow> bool" where
  "data_bit data k = (drop_bit (7 - k mod 8) (data (k div 8)) AND 1 \<noteq> 0)"

subsection \<open>Block decoder\<close>

text \<open>
  \<^verbatim>\<open>gfx_anim_decode_block\<close>. The JPEG decoder is an external collaborator and a
  parameter \<open>jpeg\<close> of the model: it maps the compressed bytes, their length, the output
  memory, its size and the byte-order flag to a status and the new output memory.
  \<open>heap\<close> is what \<^verbatim>\<open>malloc(rle_out_len)\<close> returns for the Huffman scratch buffer:
  \<open>None\<close> for \<^verbatim>\<open>NULL\<close>, otherwise the memory found at the returned address. The
  result reports the status, the decode buffer, and the scratch memory as the Huffman
  engine left it.
\<close>

type_synonym jpeg_decoder = "mem \<Rightarrow> nat \<Rightarrow> mem \<Rightarrow> nat \<Rightarrow> bool \<Rightarrow> esp_err \<times> mem"

record decode_result =
  dec_status :: esp_err
  dec_buffer :: mem
  dec_scratch :: "mem option"

definition GFX_AAF_ENCODING_RLE :: byte where "GFX_AAF_ENCODING_RLE = 0"
definition GFX_AAF_ENCODING_HUFFMAN :: byte where "GFX_AAF_ENCODING_HUFFMAN = 1"
definition GFX_AAF_ENCODING_JPEG :: byte where "GFX_AAF_ENCODING_JPEG = 2"
definition GFX_AAF_ENCODING_HUFFMAN_DIRECT :: byte where "GFX_AAF_ENCODING_HUFFMAN_DIRECT = 3"

definition gfx_anim_decode_block ::
  "jpeg_decoder \<Rightarrow> mem option \<Rightarrow> mem \<Rightarrow> (nat \<Rightarrow> 32 word) \<Rightarrow> 'a gfx_aaf_header_scheme \<Rightarrow> nat \<Rightarrow>
   mem \<Rightarrow> int \<Rightarrow> int \<Rightarrow> bool \<Rightarrow> decode_result" where
  "gfx_anim_decode_block jpeg heap data offsets header block decode_buffer w bh swap_color =
     (let block_data = ptr_add data (unat (offsets block));
          blen = sint (block_len header block);
          encoding_type = block_data 0
      in if encoding_type = GFX_AAF_ENCODING_RLE then
           (let rle_out_len = to_size_t (w * bh);
                r = gfx_aaf_rle_decode (ptr_add block_data 1) (to_size_t (blen - 1))
                      decode_buffer rle_out_len
            in \<lparr>dec_status = (if rle_status r \<noteq> ESP_OK then ESP_FAIL else ESP_OK),
                 dec_buffer = rle_output r, dec_scratch = None\<rparr>)
         else if encoding_type = GFX_AAF_ENCODING_HUFFMAN then
           (let rle_out_len = to_size_t (w * bh)
            in case heap of
                 None \<Rightarrow> \<lparr>dec_status = ESP_FAIL, dec_buffer = decode_buffer, dec_scratch = None\<rparr>
               | Some huffman_buffer \<Rightarrow>
                   (let h = gfx_aaf_huffman_decode (Some block_data) (to_size_t blen)
                              huffman_buffer 0;
                        huffman_out_len = huff_output_len h
                    in if huffman_out_len > rle_out_len
                       then \<lparr>dec_status = ESP_FAIL, dec_buffer = decode_buffer,
                              dec_scratch = Some (huff_output h)\<rparr>
                       else
                         (let r = gfx_aaf_rle_decode (huff_output h) huffman_out_len
                                    decode_buffer rle_out_len
                          in \<lparr>dec_status = (if rle_status r \<noteq> ESP_OK then ESP_FAIL else ESP_OK),
                               dec_buffer = rle_output r, dec_scratch = Some (huff_output h)\<rparr>)))
         else if encoding_type = GFX_AAF_ENCODING_HUFFMAN_DIRECT then
           (let h = gfx_aaf_huffman_decode (Some block_data) (to_size_t blen) decode_buffer 0
            in if huff_status h \<noteq> ESP_OK
               then \<lparr>dec_status = ESP_FAIL, dec_buffer = huff_output h, dec_scratch = None\<rparr>
               else if huff_output_len h \<noteq> to_size_t (w * bh)
               then \<lparr>dec_status = ESP_FAIL, dec_buffer = huff_output h, dec_scratch = None\<rparr>
               else \<lparr>dec_status = ESP_OK, dec_buffer = huff_output h, dec_scratch = None\<rparr>)
         else if encoding_type = GFX_AAF_ENCODING_JPEG then
           (let jpg_out_len = to_size_t (w * bh * 2);
                (jpeg_ret, out) = jpeg (ptr_add block_data 1) (to_size_t (blen - 1))
                                    decode_buffer jpg_out_len swap_color
            in if jpeg_ret \<noteq> ESP_OK
               then \<lparr>dec_status = ESP_FAIL, dec_buffer = out, dec_scratch = None\<rparr>
               else \<lparr>dec_status = ESP_OK, dec_buffer = out, dec_scratch = None\<rparr>)
         else \<lparr>dec_status = ESP_FAIL, dec_buffer = decode_buffer, dec_scratch = None\<rparr>)"

subsection \<open>Container index\<close>

text \<open>
  \<^verbatim>\<open>gfx_aaf_format.c\<close>. Multi-byte fields are read through pointer casts on a
  little-endian target.
\<close>

definition read_u16 :: "mem \<Rightarrow> nat \<Rightarrow> 16 word" where
  "read_u16 data p = ucast (data p) OR push_bit 8 (ucast (data (p + 1)))"

definition read_u32 :: "mem \<Rightarrow> nat \<Rightarrow> 32 word" where
  "read_u32 data p =
     ucast (data p) OR push_bit 8 (ucast (data (p + 1))) OR
     push_bit 16 (ucast (data (p + 2))) OR push_bit 24 (ucast (data (p + 3)))"

definition GFX_AAF_MAGIC_HEAD :: "16 word" where "GFX_AAF_MAGIC_HEAD = 0x5A5A"
definition GFX_AAF_MAGIC_LEN :: nat where "GFX_AAF_MAGIC_LEN = 2"
definition GFX_AAF_FORMAT_MAGIC :: byte where "GFX_AAF_FORMAT_MAGIC = 0x89"
definition GFX_AAF_FORMAT_STR :: "byte list" where "GFX_AAF_FORMAT_STR = [0x41, 0x41, 0x46]"
definition GFX_AAF_FORMAT_OFFSET :: nat where "GFX_AAF_FORMAT_OFFSET = 0"
definition GFX_AAF_STR_OFFSET :: nat where "GFX_AAF_STR_OFFSET = 1"
definition GFX_AAF_NUM_OFFSET :: nat where "GFX_AAF_NUM_OFFSET = 4"
definition GFX_AAF_CHECKSUM_OFFSET :: nat where "GFX_AAF_CHECKSUM_OFFSET = 8"
definition GFX_AAF_TABLE_LEN :: nat where "GFX_AAF_TABLE_LEN = 12"
definition GFX_AAF_TABLE_OFFSET :: nat where "GFX_AAF_TABLE_OFFSET = 16"

text \<open>
  \<^verbatim>\<open>asset_entry_t\<close>: \<open>asset_mem\<close> is the offset of the frame from the start of the
  container, \<open>table\<close> the offset of its table entry.
\<close>

record asset_entry =
  asset_mem :: nat
  table :: nat

record gfx_aaf_format_ctx =
  container :: mem
  entries :: "asset_entry list"
  total_frames :: int

text \<open>The loop of \<^verbatim>\<open>gfx_aaf_format_calc_checksum\<close>, with \<^verbatim>\<open>i\<close> as last argument.\<close>

function checksum_loop :: "mem \<Rightarrow> nat \<Rightarrow> 32 word \<Rightarrow> nat \<Rightarrow> 32 word" where
  "checksum_loop data len checksum i =
     (if i < len then checksum_loop data len (checksum + ucast (data i)) (i + 1) else checksum)"
  by pat_completeness auto
termination
  by (relation "measure (\<lambda>(data, len, checksum, i). len - i)") auto

definition gfx_aaf_format_calc_checksum :: "mem \<Rightarrow> 32 word \<Rightarrow> 32 word" where
  "gfx_aaf_format_calc_checksum data len = checksum_loop data (unat len) 0 0"

text \<open>
  The loop of \<^verbatim>\<open>gfx_aaf_format_init\<close> over the frames, from \<open>i\<close> on, with the
  entries filled so far. It stops with \<^verbatim>\<open>ESP_ERR_INVALID_CRC\<close> at the first frame
  whose magic is wrong. \<^verbatim>\<open>total_frames * sizeof(asset_table_entry_t)\<close> is a
  \<^verbatim>\<open>size_t\<close> product.
\<close>

function entries_loop :: "mem \<Rightarrow> int \<Rightarrow> int \<Rightarrow> asset_entry list \<Rightarrow> esp_err + asset_entry list" where
  "entries_loop data n i es =
     (if i < n then
        (let tbl = GFX_AAF_TABLE_OFFSET + nat i * 8;
             mem = GFX_AAF_TABLE_OFFSET + to_size_t (n * 8) + unat (read_u32 data (tbl + 4))
         in if read_u16 data mem = GFX_AAF_MAGIC_HEAD
            then entries_loop data n (i + 1) (es @ [\<lparr>asset_mem = mem, table = tbl\<rparr>])
            else Inl ESP_ERR_INVALID_CRC)
      else Inr es)"
  by pat_completeness auto
termination
  by (relation "measure (\<lambda>(data, n, i, es). nat (n - i))") auto

text \<open>
  \<^verbatim>\<open>gfx_aaf_format_init\<close>. \<open>parser_alloc\<close> tells whether the \<^verbatim>\<open>calloc\<close> of the
  handle succeeds. The source does not use \<^verbatim>\<open>data_len\<close>, and does not test the
  \<^verbatim>\<open>malloc\<close> of the entries.
\<close>

definition gfx_aaf_format_init :: "bool \<Rightarrow> mem \<Rightarrow> nat \<Rightarrow> esp_err + gfx_aaf_format_ctx" where
  "gfx_aaf_format_init parser_alloc data data_len =
     (if \<not> parser_alloc then Inl ESP_ERR_NO_MEM
      else if data GFX_AAF_FORMAT_OFFSET \<noteq> GFX_AAF_FORMAT_MAGIC then Inl ESP_ERR_INVALID_CRC
      else if map (ptr_add data GFX_AAF_STR_OFFSET) [0..<3] \<noteq> GFX_AAF_FORMAT_STR
      then Inl ESP_ERR_INVALID_CRC
      else
        (let n = sint (read_u32 data GFX_AAF_NUM_OFFSET);
             stored_chk = read_u32 data GFX_AAF_CHECKSUM_OFFSET;
             stored_len = read_u32 data GFX_AAF_TABLE_LEN;
             calculated_chk =
               gfx_aaf_format_calc_checksum (ptr_add data GFX_AAF_TABLE_OFFSET) stored_len
         in if calculated_chk \<noteq> stored_chk then Inl ESP_ERR_INVALID_CRC
            else case entries_loop data n 0 [] of
                   Inl e \<Rightarrow> Inl e
                 | Inr es \<Rightarrow> Inr \<lparr>container = data, entries = es, total_frames = n\<rparr>))"

text \<open>
  The outcome of an accessor that dereferences \<^verbatim>\<open>parser->entries + index\<close>: the value
  computed from an entry of the array, \<^verbatim>\<open>NULL\<close> or \<open>-1\<close> from the guarded branch, or a
  read of the array at an index outside it.
\<close>

datatype 'a access = Value 'a | Invalid | Outside int

definition entry_at :: "gfx_aaf_format_ctx \<Rightarrow> int \<Rightarrow> (asset_entry \<Rightarrow> 'a) \<Rightarrow> 'a access" where
  "entry_at parser index f =
     (if 0 \<le> index \<and> index < int (length (entries parser))
      then Value (f (entries parser ! nat index))
      else Outside index)"

text \<open>
  \<^verbatim>\<open>gfx_aaf_format_get_frame_data\<close> returns a pointer, given here as the offset into
  the container; \<open>Invalid\<close> is \<^verbatim>\<open>NULL\<close>.
\<close>

definition gfx_aaf_format_get_frame_data :: "gfx_aaf_format_ctx \<Rightarrow> int \<Rightarrow> nat access" where
  "gfx_aaf_format_get_frame_data parser index =
     (if total_frames parser > index
      then entry_at parser index (\<lambda>e. asset_mem e + GFX_AAF_MAGIC_LEN)
      else Invalid)"

text \<open>
  \<^verbatim>\<open>gfx_aaf_format_get_frame_size\<close>: \<^verbatim>\<open>asset_size - 2\<close> is computed in
  \<^verbatim>\<open>uint32_t\<close> and returned as \<^verbatim>\<open>int\<close>; \<open>Invalid\<close> is the return value \<open>-1\<close>.
\<close>

definition gfx_aaf_format_get_frame_size :: "gfx_aaf_format_ctx \<Rightarrow> int \<Rightarrow> int access" where
  "gfx_aaf_format_get_frame_size parser index =
     (if total_frames parser > index
      then entry_at parser index
             (\<lambda>e. sint (read_u32 (container parser) (table e) - of_nat GFX_AAF_MAGIC_LEN))
      else Invalid)"

subsection \<open>Compositor\<close>

text \<open>
  The counted iteration of the renderer and of the draw routine:
  \<^verbatim>\<open>for (i = ...; i < n; i++)\<close> and \<^verbatim>\<open>for (i = ...; i < n; i += 2)\<close>, with the loop
  body as a state transformer. No such loop in the source has a \<^verbatim>\<open>break\<close>.
\<close>

function for_upto :: "int \<Rightarrow> int \<Rightarrow> (int \<Rightarrow> 's \<Rightarrow> 's) \<Rightarrow> 's \<Rightarrow> 's" where
  "for_upto i n body s = (if i < n then for_upto (i + 1) n body (body i s) else s)"
  by pat_completeness auto
termination
  by (relation "measure (\<lambda>(i, n, body, s). nat (n - i))") auto

function for_by2 :: "int \<Rightarrow> int \<Rightarrow> (int \<Rightarrow> 's \<Rightarrow> 's) \<Rightarrow> 's \<Rightarrow> 's" where
  "for_by2 i n body s = (if i < n then for_by2 (i + 2) n body (body i s) else s)"
  by pat_completeness auto
termination
  by (relation "measure (\<lambda>(i, n, body, s). nat (n - i))") auto

text \<open>
  The destination is a memory of 16-bit colours (\<^verbatim>\<open>gfx_color_t\<close>), indexed, as in the
  source, by \<^verbatim>\<open>int\<close> expressions relative to \<^verbatim>\<open>dest_buf\<close>. Coordinates
  (\<^verbatim>\<open>gfx_coord_t\<close>, \<^verbatim>\<open>int\<close>, \<^verbatim>\<open>int16_t\<close>) are integers; the products and sums of
  the renderer stay far below \<open>2 ^ 31\<close> for 16-bit operands. The fields of a
  \<^verbatim>\<open>gfx_area_t\<close> hold 16-bit values: the draw routine, which fills them, reduces each
  value that it stores (\<open>to_coord\<close> below). \<^verbatim>\<open>gfx_area_t\<close>:
\<close>

type_synonym pixels = "int \<Rightarrow> 16 word"

record gfx_area =
  area_x1 :: int
  area_y1 :: int
  area_x2 :: int
  area_y2 :: int

text \<open>
  The lazy palette cache: \<^verbatim>\<open>if (palette_cache[index] == 0xFFFFFFFF) { ... }\<close>.
\<close>

definition palette_lookup ::
  "'a gfx_aaf_header_scheme \<Rightarrow> bool \<Rightarrow> (nat \<Rightarrow> 32 word) \<Rightarrow> byte \<Rightarrow> (nat \<Rightarrow> 32 word)" where
  "palette_lookup header swap_color palette_cache index =
     (if palette_cache (unat index) = 0xFFFFFFFF
      then palette_cache(unat index := ucast (gfx_aaf_parse_palette header index swap_color))
      else palette_cache)"

text \<open>
  The mirrored store that follows a store at \<open>x\<close>:
  \<^verbatim>\<open>if (mirror_enabled) { int mirror_x = width + mirror_offset + width - 1 - x; ... }\<close>.
\<close>

definition mirror_write ::
  "pixels \<Rightarrow> int \<Rightarrow> int \<Rightarrow> bool \<Rightarrow> int \<Rightarrow> int \<Rightarrow> int \<Rightarrow> int \<Rightarrow> 16 word \<Rightarrow> pixels" where
  "mirror_write dest_buf dest_stride y mirror_en w mirror_ofs dest_x_offset x color_val =
     (if mirror_en then
        (let mirror_x = w + mirror_ofs + w - 1 - x
         in if mirror_x \<ge> 0 \<and> dest_x_offset + mirror_x < dest_stride
            then dest_buf(y * dest_stride + mirror_x := color_val)
            else dest_buf)
      else dest_buf)"

text \<open>
  \<^verbatim>\<open>gfx_anim_render_8bit_pixels\<close>: the body of the inner loop, and the nested iteration. The
  state is the destination and the palette cache.
\<close>

definition render_8bit_pixel ::
  "int \<Rightarrow> mem \<Rightarrow> int \<Rightarrow> 'a gfx_aaf_header_scheme \<Rightarrow> bool \<Rightarrow> bool \<Rightarrow> int \<Rightarrow> int \<Rightarrow>
   int \<Rightarrow> int \<Rightarrow> pixels \<times> (nat \<Rightarrow> 32 word) \<Rightarrow> pixels \<times> (nat \<Rightarrow> 32 word)" where
  "render_8bit_pixel dest_stride src_buf src_stride header swap_color mirror_en mirror_ofs
     dest_x_offset y x st =
     (let (dest_buf, palette_cache) = st;
          index = src_buf (nat (y * src_stride + x));
          palette_cache = palette_lookup header swap_color palette_cache index;
          color_val = (ucast (palette_cache (unat index)) :: 16 word);
          dest_buf = dest_buf(y * dest_stride + x := color_val);
          dest_buf = mirror_write dest_buf dest_stride y mirror_en (uint (width header))
                       mirror_ofs dest_x_offset x color_val
      in (dest_buf, palette_cache))"

definition gfx_anim_render_8bit_pixels ::
  "pixels \<Rightarrow> int \<Rightarrow> mem \<Rightarrow> int \<Rightarrow> 'a gfx_aaf_header_scheme \<Rightarrow> (nat \<Rightarrow> 32 word) \<Rightarrow> gfx_area \<Rightarrow>
   bool \<Rightarrow> bool \<Rightarrow> int \<Rightarrow> int \<Rightarrow> pixels \<times> (nat \<Rightarrow> 32 word)" where
  "gfx_anim_render_8bit_pixels dest_buf dest_stride src_buf src_stride header palette_cache
     clip_area swap_color mirror_en mirror_ofs dest_x_offset =
     (let w = area_x2 clip_area - area_x1 clip_area;
          h = area_y2 clip_area - area_y1 clip_area
      in for_upto 0 h
           (\<lambda>y. for_upto 0 w
              (render_8bit_pixel dest_stride src_buf src_stride header swap_color mirror_en
                 mirror_ofs dest_x_offset y))
           (dest_buf, palette_cache))"

text \<open>
  \<^verbatim>\<open>gfx_anim_render_4bit_pixels\<close>: one iteration handles the two pixels packed in a
  byte. The mirrored store of the second pixel writes \<^verbatim>\<open>color_val1\<close>, as the source
  does.
\<close>

definition render_4bit_pixel ::
  "int \<Rightarrow> mem \<Rightarrow> int \<Rightarrow> 'a gfx_aaf_header_scheme \<Rightarrow> bool \<Rightarrow> bool \<Rightarrow> int \<Rightarrow> int \<Rightarrow>
   int \<Rightarrow> int \<Rightarrow> pixels \<times> (nat \<Rightarrow> 32 word) \<Rightarrow> pixels \<times> (nat \<Rightarrow> 32 word)" where
  "render_4bit_pixel dest_stride src_buf src_stride header swap_color mirror_en mirror_ofs
     dest_x_offset y x st =
     (let (dest_buf, palette_cache) = st;
          packed_gray = src_buf (nat (y * src_stride div 2 + x div 2));
          index1 = drop_bit 4 (packed_gray AND 0xF0);
          index2 = packed_gray AND 0x0F;
          palette_cache = palette_lookup header swap_color palette_cache index1;
          color_val1 = (ucast (palette_cache (unat index1)) :: 16 word);
          dest_buf = dest_buf(y * dest_stride + x := color_val1);
          dest_buf = mirror_write dest_buf dest_stride y mirror_en (uint (width header))
                       mirror_ofs dest_x_offset x color_val1;
          palette_cache = palette_lookup header swap_color palette_cache index2;
          color_val2 = (ucast (palette_cache (unat index2)) :: 16 word);
          dest_buf = dest_buf(y * dest_stride + x + 1 := color_val2);
          dest_buf = mirror_write dest_buf dest_stride y mirror_en (uint (width header))
                       mirror_ofs dest_x_offset (x + 1) color_val1
      in (dest_buf, palette_cache))"

definition gfx_anim_render_4bit_pixels ::
  "pixels \<Rightarrow> int \<Rightarrow> mem \<Rightarrow> int \<Rightarrow> 'a gfx_aaf_header_scheme \<Rightarrow> (nat \<Rightarrow> 32 word) \<Rightarrow> gfx_area \<Rightarrow>
   bool \<Rightarrow> bool \<Rightarrow> int \<Rightarrow> int \<Rightarrow> pixels \<times> (nat \<Rightarrow> 32 word)" where
  "gfx_anim_render_4bit_pixels dest_buf dest_stride src_buf src_stride header palette_cache
     clip_area swap_color mirror_en mirror_ofs dest_x_offset =
     (let clip_w = area_x2 clip_area - area_x1 clip_area;
          clip_h = area_y2 clip_area - area_y1 clip_area
      in for_upto 0 clip_h
           (\<lambda>y. for_by2 0 clip_w
              (render_4bit_pixel dest_stride src_buf src_stride header swap_color mirror_en
                 mirror_ofs dest_x_offset y))
           (dest_buf, palette_cache))"

text \<open>
  \<^verbatim>\<open>gfx_anim_render_24bit_pixels\<close>: the source bytes are read as 16-bit colours, and
  \<^verbatim>\<open>width\<close> is the source stride.
\<close>

definition render_24bit_pixel ::
  "int \<Rightarrow> mem \<Rightarrow> int \<Rightarrow> bool \<Rightarrow> int \<Rightarrow> int \<Rightarrow> int \<Rightarrow> int \<Rightarrow> pixels \<Rightarrow> pixels" where
  "render_24bit_pixel dest_stride src_buf src_stride mirror_en mirror_ofs dest_x_offset y x
     dest_buf =
     (let color_val = read_u16 src_buf (2 * nat (y * src_stride + x));
          dest_buf = dest_buf(y * dest_stride + x := color_val)
      in mirror_write dest_buf dest_stride y mirror_en src_stride mirror_ofs dest_x_offset x
           color_val)"

definition gfx_anim_render_24bit_pixels ::
  "pixels \<Rightarrow> int \<Rightarrow> mem \<Rightarrow> int \<Rightarrow> gfx_area \<Rightarrow> bool \<Rightarrow> bool \<Rightarrow> int \<Rightarrow> int \<Rightarrow> pixels" where
  "gfx_anim_render_24bit_pixels dest_buf dest_stride src_buf src_stride clip_area swap_color
     mirror_en mirror_ofs dest_x_offset =
     (let w = area_x2 clip_area - area_x1 clip_area;
          h = area_y2 clip_area - area_y1 clip_area
      in for_upto 0 h
           (\<lambda>y. for_upto 0 w
              (render_24bit_pixel dest_stride src_buf src_stride mirror_en mirror_ofs
                 dest_x_offset y))
           dest_buf)"

text \<open>
  The mirror property of a destination, used to state what the renderers establish: at
  every row above \<open>Y\<close>, and in row \<open>Y\<close> left of column \<open>X\<close>, the pixel at the mirror
  position \<^verbatim>\<open>width + mirror_offset + width - 1 - x\<close> equals the pixel at \<open>x\<close>, for the
  columns \<open>x\<close> of the clip width \<open>w\<close>.
\<close>

definition mirrored :: "int \<Rightarrow> int \<Rightarrow> int \<Rightarrow> int \<Rightarrow> int \<Rightarrow> int \<Rightarrow> pixels \<Rightarrow> bool" where
  "mirrored ds W ofs w Y X d =
     (\<forall>y x. 0 \<le> y \<and> 0 \<le> x \<and> x < w \<and> (y < Y \<or> (y = Y \<and> x < X)) \<longrightarrow>
        d (y * ds + (W + ofs + W - 1 - x)) = d (y * ds + x))"

subsection \<open>Frame decode cache and draw routine\<close>

text \<open>
  \<^verbatim>\<open>gfx_anim_frame_info_t\<close> and the part of \<^verbatim>\<open>gfx_anim_property_t\<close> that the draw
  routine reads. A field that may be \<^verbatim>\<open>NULL\<close> is an option.
\<close>

record gfx_anim_frame_info =
  header :: gfx_aaf_header
  frame_data :: "mem option"
  block_offsets :: "(nat \<Rightarrow> 32 word) option"
  pixel_buffer :: "mem option"
  color_palette :: "nat \<Rightarrow> 32 word"
  last_block :: int

record gfx_anim_property =
  frame :: gfx_anim_frame_info
  mirror_enabled :: bool
  mirror_offset :: int

text \<open>
  The state the block loop of \<^verbatim>\<open>gfx_draw_animation\<close> works on: the destination, the
  decode buffer, the palette cache and \<^verbatim>\<open>*last_block\<close>. \<open>ds_decodes\<close> is the probe that
  counts decodes: the blocks on which \<^verbatim>\<open>gfx_anim_decode_block\<close> was called, in order.
\<close>

record draw_state =
  ds_dest :: pixels
  ds_buffer :: mem
  ds_cache :: "nat \<Rightarrow> 32 word"
  ds_last_block :: int
  ds_decodes :: "nat list"

text \<open>\<open>view p k\<close> is the pointer \<^verbatim>\<open>p + k\<close> into a pixel memory, \<open>unview\<close> its inverse.\<close>

definition view :: "pixels \<Rightarrow> int \<Rightarrow> pixels" where
  "view p k = (\<lambda>i. p (k + i))"

definition unview :: "pixels \<Rightarrow> int \<Rightarrow> pixels" where
  "unview p k = (\<lambda>i. p (i - k))"

text \<open>
  \<^verbatim>\<open>gfx_coord_t\<close> is \<^verbatim>\<open>int16_t\<close> (in \<^verbatim>\<open>gfx_types.h\<close> of the component) and
  \<^verbatim>\<open>int\<close> has 32 bits. A value stored in a \<^verbatim>\<open>gfx_coord_t\<close> variable, or in a field of
  a \<^verbatim>\<open>gfx_area_t\<close>, is reduced to 16 bits in two's complement: \<open>to_coord\<close>. \<open>to_int\<close>
  is the same reduction to 32 bits, written at each \<^verbatim>\<open>int\<close> operation of the draw routine
  whose result can leave the range of \<^verbatim>\<open>int\<close> for operands in the ranges of their types.
  The position \<open>obj_x\<close>, \<open>obj_y\<close> of the object is a pair of \<^verbatim>\<open>gfx_coord_t\<close>, read with
  \<^const>\<open>sint\<close>; the corners \<open>x1\<close>, \<open>y1\<close>, \<open>x2\<close>, \<open>y2\<close> of a request are \<^verbatim>\<open>int\<close>.
\<close>

definition to_coord :: "int \<Rightarrow> int" where
  "to_coord i = (i + 2 ^ 15) mod 2 ^ 16 - 2 ^ 15"

definition to_int :: "int \<Rightarrow> int" where
  "to_int i = (i + 2 ^ 31) mod 2 ^ 32 - 2 ^ 31"

text \<open>The division of C rounds towards zero.\<close>

definition c_div :: "int \<Rightarrow> int \<Rightarrow> int" where
  "c_div a b = sgn a * sgn b * (abs a div abs b)"

text \<open>
  The block loop of \<^verbatim>\<open>gfx_draw_animation\<close>: \<^verbatim>\<open>block_start_y\<close> after
  \<^verbatim>\<open>block_start_y += obj_y\<close>, \<^verbatim>\<open>clip_block\<close> as the body computes it, and the two
  tests that \<^verbatim>\<open>continue\<close> before anything is decoded.
\<close>

definition block_start_y :: "'a gfx_aaf_header_scheme \<Rightarrow> 16 word \<Rightarrow> int \<Rightarrow> int" where
  "block_start_y hdr obj_y block =
     to_int (to_int (block * uint (block_height hdr)) + sint obj_y)"

definition block_clip ::
  "'a gfx_aaf_header_scheme \<Rightarrow> 16 word \<Rightarrow> 16 word \<Rightarrow> gfx_area \<Rightarrow> int \<Rightarrow> gfx_area" where
  "block_clip hdr obj_x obj_y clip_object block =
     (let w = uint (width hdr); h = uint (height hdr);
          bh = uint (block_height hdr); aaf_blocks = uint (blocks hdr);
          block_end_y = (if block = aaf_blocks - 1 then h else to_int ((block + 1) * bh));
          block_end_y = to_int (block_end_y + sint obj_y);
          block_start_x = 0 + sint obj_x;
          block_end_x = w + sint obj_x
      in \<lparr>area_x1 = to_coord (max (area_x1 clip_object) block_start_x),
          area_y1 = to_coord (max (area_y1 clip_object) (block_start_y hdr obj_y block)),
          area_x2 = to_coord (min (area_x2 clip_object) block_end_x),
          area_y2 = to_coord (min (area_y2 clip_object) block_end_y)\<rparr>)"

definition block_skipped ::
  "'a gfx_aaf_header_scheme \<Rightarrow> 16 word \<Rightarrow> 16 word \<Rightarrow> gfx_area \<Rightarrow> int \<Rightarrow> bool" where
  "block_skipped hdr obj_x obj_y clip_object block =
     (let clip_block = block_clip hdr obj_x obj_y clip_object block;
          src_offset_x = area_x1 clip_block - (0 + sint obj_x);
          src_offset_y = to_int (area_y1 clip_block - block_start_y hdr obj_y block)
      in area_x1 clip_block \<ge> area_x2 clip_block \<or> area_y1 clip_block \<ge> area_y2 clip_block \<or>
         src_offset_x < 0 \<or> src_offset_y < 0 \<or>
         src_offset_x \<ge> uint (width hdr) \<or> src_offset_y \<ge> uint (block_height hdr))"

text \<open>
  The compositing of one block, after the decode gate. With a width of \<open>2 ^ 15\<close> or more,
  \<^verbatim>\<open>source_buffer_stride\<close> is negative and \<^verbatim>\<open>source_pixels\<close> can lie before the decode
  buffer; the memories of the model start at address 0, and such a pointer is taken as
  the start of the buffer.
\<close>

definition composite_block ::
  "'a gfx_aaf_header_scheme \<Rightarrow> bool \<Rightarrow> int \<Rightarrow> 16 word \<Rightarrow> 16 word \<Rightarrow> int \<Rightarrow> int \<Rightarrow> int \<Rightarrow>
   gfx_area \<Rightarrow> bool \<Rightarrow> int \<Rightarrow> draw_state \<Rightarrow> draw_state" where
  "composite_block hdr mirror_en mirror_ofs obj_x obj_y x1 y1 x2 clip_object swap_color block s =
     (let clip_block = block_clip hdr obj_x obj_y clip_object block;
          src_offset_x = area_x1 clip_block - (0 + sint obj_x);
          src_offset_y = to_int (area_y1 clip_block - block_start_y hdr obj_y block);
          dest_buffer_stride = to_coord (to_int (x2 - x1));
          source_buffer_stride = to_coord (uint (width hdr));
          decode_buffer = ds_buffer s;
          source_pixels =
            (if bit_depth hdr = 24
             then ptr_add decode_buffer
                    (nat (to_int (src_offset_y * (source_buffer_stride * 2)) + src_offset_x * 2))
             else if bit_depth hdr = 4
             then ptr_add decode_buffer
                    (nat (to_int (src_offset_y * c_div source_buffer_stride 2) + c_div src_offset_x 2))
             else ptr_add decode_buffer
                    (nat (to_int (src_offset_y * source_buffer_stride) + src_offset_x)));
          dest_x_offset = to_int (area_x1 clip_block - x1);
          base = to_int (to_int (area_y1 clip_block - y1) * dest_buffer_stride) + dest_x_offset;
          dest_pixels = view (ds_dest s) base
      in if bit_depth hdr = 4 then
           (let (d, c) = gfx_anim_render_4bit_pixels dest_pixels dest_buffer_stride source_pixels
                           source_buffer_stride hdr (ds_cache s) clip_block swap_color mirror_en
                           mirror_ofs dest_x_offset
            in s\<lparr>ds_dest := unview d base, ds_cache := c\<rparr>)
         else if bit_depth hdr = 8 then
           (let (d, c) = gfx_anim_render_8bit_pixels dest_pixels dest_buffer_stride source_pixels
                           source_buffer_stride hdr (ds_cache s) clip_block swap_color mirror_en
                           mirror_ofs dest_x_offset
            in s\<lparr>ds_dest := unview d base, ds_cache := c\<rparr>)
         else if bit_depth hdr = 24 then
           s\<lparr>ds_dest := unview
               (gfx_anim_render_24bit_pixels dest_pixels dest_buffer_stride source_pixels
                  source_buffer_stride clip_block swap_color mirror_en mirror_ofs dest_x_offset)
               base\<rparr>
         else s)"

text \<open>
  The body of the iteration over the blocks. A block that fails to decode is left with
  \<^verbatim>\<open>continue\<close>: the decode buffer holds what the failed decode wrote, and
  \<^verbatim>\<open>*last_block\<close> keeps its value. \<open>heap\<close> gives, for each block, what the
  \<^verbatim>\<open>malloc\<close> of its Huffman scratch buffer returns.
\<close>

definition draw_block ::
  "jpeg_decoder \<Rightarrow> (nat \<Rightarrow> mem option) \<Rightarrow> mem \<Rightarrow> (nat \<Rightarrow> 32 word) \<Rightarrow> 'a gfx_aaf_header_scheme \<Rightarrow>
   bool \<Rightarrow> int \<Rightarrow> 16 word \<Rightarrow> 16 word \<Rightarrow> int \<Rightarrow> int \<Rightarrow> int \<Rightarrow> gfx_area \<Rightarrow> bool \<Rightarrow> int \<Rightarrow>
   draw_state \<Rightarrow> draw_state" where
  "draw_block jpeg heap data offsets hdr mirror_en mirror_ofs obj_x obj_y x1 y1 x2 clip_object
     swap_color block s =
     (if block_skipped hdr obj_x obj_y clip_object block then s
      else if block \<noteq> ds_last_block s then
        (let r = gfx_anim_decode_block jpeg (heap (nat block)) data offsets hdr (nat block)
                   (ds_buffer s) (uint (width hdr)) (uint (block_height hdr)) swap_color;
             s = s\<lparr>ds_buffer := dec_buffer r, ds_decodes := ds_decodes s @ [nat block]\<rparr>
         in if dec_status r \<noteq> ESP_OK then s
            else composite_block hdr mirror_en mirror_ofs obj_x obj_y x1 y1 x2 clip_object
                   swap_color block (s\<lparr>ds_last_block := block\<rparr>))
      else composite_block hdr mirror_en mirror_ofs obj_x obj_y x1 y1 x2 clip_object
             swap_color block s)"

text \<open>
  \<^verbatim>\<open>clip_object\<close>: the request clipped to the placed object, each corner stored in a
  \<^verbatim>\<open>gfx_coord_t\<close> field. \<^verbatim>\<open>obj->width\<close> and \<^verbatim>\<open>obj->height\<close> are \<^verbatim>\<open>uint16_t\<close> and hold
  the width and height of the header.
\<close>

definition object_clip ::
  "'a gfx_aaf_header_scheme \<Rightarrow> 16 word \<Rightarrow> 16 word \<Rightarrow> int \<Rightarrow> int \<Rightarrow> int \<Rightarrow> int \<Rightarrow> gfx_area" where
  "object_clip hdr obj_x obj_y x1 y1 x2 y2 =
     \<lparr>area_x1 = to_coord (max x1 (sint obj_x)),
      area_y1 = to_coord (max y1 (sint obj_y)),
      area_x2 = to_coord (min x2 (sint obj_x + uint (width hdr))),
      area_y2 = to_coord (min y2 (sint obj_y + uint (height hdr)))\<rparr>"

text \<open>
  \<^verbatim>\<open>gfx_draw_animation\<close>, for an animation object with a file descriptor. \<open>obj_x\<close> and
  \<open>obj_y\<close> are the position that \<^verbatim>\<open>gfx_obj_calculate_aligned_position\<close> returns. The
  result is \<open>None\<close> when the routine returns before the block iteration, and otherwise the
  state after it, whose decode count starts from zero.
\<close>

definition gfx_draw_animation ::
  "jpeg_decoder \<Rightarrow> (nat \<Rightarrow> mem option) \<Rightarrow> gfx_anim_property \<Rightarrow> 16 word \<Rightarrow> 16 word \<Rightarrow>
   int \<Rightarrow> int \<Rightarrow> int \<Rightarrow> int \<Rightarrow> pixels \<Rightarrow> bool \<Rightarrow> draw_state option" where
  "gfx_draw_animation jpeg heap anim obj_x obj_y x1 y1 x2 y2 dest_buf swap_color =
     (case frame_data (frame anim) of
        None \<Rightarrow> None
      | Some data \<Rightarrow>
          if width (header (frame anim)) = 0 then None
          else
            (case (block_offsets (frame anim), pixel_buffer (frame anim)) of
               (Some offsets, Some decode_buffer) \<Rightarrow>
                 (let hdr = header (frame anim);
                      clip_object = object_clip hdr obj_x obj_y x1 y1 x2 y2
                  in if area_x1 clip_object \<ge> area_x2 clip_object \<or>
                        area_y1 clip_object \<ge> area_y2 clip_object
                     then None
                     else Some
                       (for_upto 0 (uint (blocks hdr))
                          (draw_block jpeg heap data offsets hdr (mirror_enabled anim)
                             (mirror_offset anim) obj_x obj_y x1 y1 x2 clip_object swap_color)
                          \<lparr>ds_dest = dest_buf, ds_buffer = decode_buffer,
                           ds_cache = color_palette (frame anim),
                           ds_last_block = last_block (frame anim), ds_decodes = []\<rparr>))
             | _ \<Rightarrow> None))"

text \<open>
  The geometry of a request, from the specification. A frame is a stack of row blocks:
  block \<open>b\<close> starts at row \<open>b * block_height\<close> of the frame and is \<open>block_height\<close> rows
  high, except the final block, which ends with the frame. The vertical span of a block:
\<close>

definition block_span :: "'a gfx_aaf_header_scheme \<Rightarrow> int \<Rightarrow> int set" where
  "block_span hdr b =
     {b * uint (block_height hdr) ..<
      (if b = uint (blocks hdr) - 1 then uint (height hdr)
       else (b + 1) * uint (block_height hdr))}"

text \<open>
  A request covers the screen pixels \<open>(x, y)\<close> with \<open>x1 \<le> x < x2\<close> and \<open>y1 \<le> y < y2\<close>.
  With the object placed at \<open>(obj_x, obj_y)\<close>, the screen pixel \<open>(x, y)\<close> shows the pixel
  \<open>(x - obj_x, y - obj_y)\<close> of the frame. The request touches block \<open>b\<close> when it covers a
  pixel of the placed frame that lies in the span of \<open>b\<close>; it touches only block \<open>k\<close>
  when \<open>k\<close> is a block of the frame that it touches and it touches no other block.
\<close>

definition request_touches ::
  "'a gfx_aaf_header_scheme \<Rightarrow> 16 word \<Rightarrow> 16 word \<Rightarrow> int \<Rightarrow> int \<Rightarrow> int \<Rightarrow> int \<Rightarrow> int \<Rightarrow> bool" where
  "request_touches hdr obj_x obj_y x1 y1 x2 y2 b =
     (\<exists>x \<in> {x1..<x2}. \<exists>y \<in> {y1..<y2}.
        x - sint obj_x \<in> {0..<uint (width hdr)} \<and>
        y - sint obj_y \<in> {0..<uint (height hdr)} \<and>
        y - sint obj_y \<in> block_span hdr b)"

definition touches_only ::
  "gfx_anim_property \<Rightarrow> 16 word \<Rightarrow> 16 word \<Rightarrow> int \<Rightarrow> int \<Rightarrow> int \<Rightarrow> int \<Rightarrow> int \<Rightarrow> bool" where
  "touches_only anim obj_x obj_y x1 y1 x2 y2 k =
     (k \<in> {0..<uint (blocks (header (frame anim)))} \<and>
      request_touches (header (frame anim)) obj_x obj_y x1 y1 x2 y2 k \<and>
      (\<forall>b \<in> {0..<uint (blocks (header (frame anim)))}.
         b \<noteq> k \<longrightarrow> \<not> request_touches (header (frame anim)) obj_x obj_y x1 y1 x2 y2 b))"

text \<open>
  The corners of a request fit the coordinate type; the final block of a frame is not
  higher than \<open>block_height\<close> (the last block may be shorter, not longer).
\<close>

definition request_fits :: "int \<Rightarrow> int \<Rightarrow> int \<Rightarrow> int \<Rightarrow> bool" where
  "request_fits x1 y1 x2 y2 =
     (- (2 ^ 15) \<le> x1 \<and> x1 < 2 ^ 15 \<and> - (2 ^ 15) \<le> y1 \<and> y1 < 2 ^ 15 \<and>
      - (2 ^ 15) \<le> x2 \<and> x2 < 2 ^ 15 \<and> - (2 ^ 15) \<le> y2 \<and> y2 < 2 ^ 15)"

definition blocks_cover :: "'a gfx_aaf_header_scheme \<Rightarrow> bool" where
  "blocks_cover hdr = (uint (height hdr) \<le> uint (blocks hdr) * uint (block_height hdr))"


definition decode_count :: "draw_state option \<Rightarrow> nat" where
  "decode_count r = (case r of None \<Rightarrow> 0 | Some s \<Rightarrow> length (ds_decodes s))"

subsection \<open>Concrete inputs\<close>

text \<open>
  A container with one frame: magic \<open>0x89\<close>, \<open>AAF\<close>, frame count 1, checksum \<open>0xB6\<close>,
  length 10, one table entry (size 2, offset 0), and a frame that consists of its magic only.
\<close>

definition sample_container :: mem where
  "sample_container =
     load [0x89, 0x41, 0x41, 0x46,  1, 0, 0, 0,  0xB6, 0, 0, 0,  10, 0, 0, 0,
           2, 0, 0, 0,  0, 0, 0, 0,  0x5A, 0x5A] (\<lambda>_. 0)"

text \<open>
  A Huffman payload: encoding tag, dictionary length 4, the dictionary (padding byte,
  then value \<open>0x41\<close> with the one-bit code \<open>0\<close>), and one byte of data.
\<close>

definition huffman_block :: "byte \<Rightarrow> byte \<Rightarrow> byte \<Rightarrow> mem" where
  "huffman_block tag padding data_byte =
     load [tag, 4, 0, padding, 0x41, 1, 0, data_byte] (\<lambda>_. 0)"

text \<open>The header of a frame of one block of one pixel, the block being 8 bytes long.\<close>

definition one_pixel_header :: gfx_aaf_header where
  "one_pixel_header =
     \<lparr>bit_depth = 8, width = 1, height = 1, blocks = 1, block_height = 1,
      block_len = (\<lambda>_. 8), data_offset = 0, palette = (\<lambda>_. 0), num_colors = 256\<rparr>"

text \<open>
  The header of a frame of one column and two rows in two blocks of one row, each block
  being 3 bytes long; a JPEG decoder that always fails; a heap that is exhausted.
\<close>

definition two_block_header :: gfx_aaf_header where
  "two_block_header =
     \<lparr>bit_depth = 8, width = 1, height = 2, blocks = 2, block_height = 1,
      block_len = (\<lambda>_. 3), data_offset = 0, palette = (\<lambda>_. 0), num_colors = 256\<rparr>"

definition no_jpeg :: jpeg_decoder where
  "no_jpeg = (\<lambda>inp insize out out_size swap. (ESP_FAIL, out))"

definition no_heap :: "nat \<Rightarrow> mem option" where
  "no_heap = (\<lambda>block. None)"



text \<open>
  An animation bound to a frame of 40000 columns and one row; and one bound to a frame of
  one column and three rows whose header declares two blocks of one row.
\<close>

definition wide_anim :: gfx_anim_property where
  "wide_anim =
     \<lparr>frame = \<lparr>header = two_block_header\<lparr>width := 40000, height := 1, blocks := 1\<rparr>,
               frame_data = Some (load [0, 1, 5] (\<lambda>_. 0)),
               block_offsets = Some (\<lambda>_. 0), pixel_buffer = Some (\<lambda>_. 0),
               color_palette = (\<lambda>_. 0xFFFFFFFF), last_block = - 1\<rparr>,
      mirror_enabled = False, mirror_offset = 0\<rparr>"

definition tall_anim :: gfx_anim_property where
  "tall_anim =
     \<lparr>frame = \<lparr>header = two_block_header\<lparr>height := 3\<rparr>,
               frame_data = Some (load [0, 1, 5, 0, 1, 7] (\<lambda>_. 0)),
               block_offsets = Some (\<lambda>block. 3 * of_nat block), pixel_buffer = Some (\<lambda>_. 0),
               color_palette = (\<lambda>_. 0xFFFFFFFF), last_block = - 1\<rparr>,
      mirror_enabled = False, mirror_offset = 0\<rparr>"

text \<open>
  A header of width 2 whose palette maps index 1 to pure red (\<open>0xF800\<close>) and index 2 to
  pure blue (\<open>0x001F\<close>).
\<close>

definition two_colour_header :: gfx_aaf_header where
  "two_colour_header =
     \<lparr>bit_depth = 4, width = 2, height = 1, blocks = 1, block_height = 1,
      block_len = (\<lambda>_. 2), data_offset = 0,
      palette = load [0, 0, 0, 0,  0, 0, 0xFF, 0,  0xFF, 0, 0, 0] (\<lambda>_. 0), num_colors = 16\<rparr>"

text \<open>
  A code table with a single code of 65 bits, a one followed by 64 zeros, for the value
  \<open>0xAA\<close>; and a table of three codes \<open>0\<close>, \<open>10\<close>, \<open>11\<close>.
\<close>

definition long_code_table :: code_table where
  "long_code_table = [(0xAA, True # replicate 64 False)]"

definition abc_table :: code_table where
  "abc_table = [(0x41, [False]), (0x42, [True, False]), (0x43, [True, True])]"

section \<open>Memories\<close>

declare for_upto.simps [simp del] for_by2.simps [simp del]

declare rle_loop.simps [simp del] checksum_loop.simps [simp del] entries_loop.simps [simp del]
  build_tree.simps [simp del] huffman_loop.simps [simp del]

lemma load_Nil: "load [] m = m"
  by (simp add: load_def)

lemma load_nth: "i < length xs \<Longrightarrow> load xs m i = xs ! i"
  by (simp add: load_def)

lemma load_beyond: "length xs \<le> i \<Longrightarrow> load xs m i = m i"
  by (simp add: load_def)

lemma store_at_Nil: "store_at p [] m = m"
  by (auto simp add: store_at_def fun_eq_iff)

lemma store_at_append:
  "store_at (p + length xs) ys (store_at p xs m) = store_at p (xs @ ys) m"
  by (auto simp: store_at_def fun_eq_iff nth_append)

lemma store_at_0: "store_at 0 xs m = load xs m"
  by (simp add: store_at_def load_def fun_eq_iff)

lemma ptr_add_update: "ptr_add (data(k + j := b)) k = (ptr_add data k)(j := b)"
  by (auto simp: ptr_add_def fun_eq_iff)

section \<open>Palette colours\<close>

lemma mask_F8: "(0xF8 :: 32 word) = push_bit 3 (mask 5)"
  by (simp add: mask_eq_exp_minus_1)

lemma mask_FC: "(0xFC :: 32 word) = push_bit 2 (mask 6)"
  by (simp add: mask_eq_exp_minus_1)

lemma and_F8: "(ucast (b :: byte) :: 32 word) AND 0xF8 = push_bit 3 (ucast (drop_bit 3 b))"
  unfolding mask_F8
  by (rule bit_word_eqI) (auto simp add: bit_simps dest: bit_imp_le_length)

lemma Suc_Suc_diff_2: "2 \<le> n \<Longrightarrow> Suc (Suc (n - 2)) = n"
  by simp

lemma and_FC: "(ucast (b :: byte) :: 32 word) AND 0xFC = push_bit 2 (ucast (drop_bit 2 b))"
  unfolding mask_FC
  by (rule bit_word_eqI) (auto simp add: bit_simps Suc_Suc_diff_2 dest: bit_imp_le_length)

lemma drop_push_3: "drop_bit 3 (push_bit 3 (ucast (c :: byte)) :: 32 word) = ucast c"
  by (rule bit_word_eqI) (auto simp add: bit_simps dest: bit_imp_le_length)

lemma rgb565_refines:
  "(ucast (rgb565_of_entry color k) :: 16 word) =
     spec_truncate_565 (color (k + 2)) (color (k + 1)) (color k)"
  unfolding rgb565_of_entry_def spec_truncate_565_def and_F8 and_FC drop_push_3 push_bit_push_bit
  by (rule bit_word_eqI) (auto simp add: bit_simps dest: bit_imp_le_length)

lemma bswap16_spec: "bswap16 x = spec_byte_swap x"
  unfolding bswap16_def spec_byte_swap_def
  by (rule bit_word_eqI) (auto simp add: bit_simps dest: bit_imp_le_length)

text \<open>
  Claim C7. For every header and every palette index, the colour resolved without swap is
  the 5-6-5 truncation of the stored palette entry (R from byte 2, G from byte 1, B from
  byte 0 of the four bytes at \<open>4 * index\<close>), and the colour resolved with swap is the
  16-bit byte swap of the colour resolved without.
\<close>

theorem parse_palette_565:
  "gfx_aaf_parse_palette hdr index False =
     spec_truncate_565 (palette hdr (unat index * 4 + 2)) (palette hdr (unat index * 4 + 1))
       (palette hdr (unat index * 4))
   \<and> gfx_aaf_parse_palette hdr index True =
     spec_byte_swap (gfx_aaf_parse_palette hdr index False)"
  by (simp add: gfx_aaf_parse_palette_def rgb565_refines bswap16_spec Let_def)

section \<open>Run-length decoding\<close>

lemma rle_fill_eq: "rle_fill outp out_pos n v = store_at out_pos (replicate n v) outp"
  by (induction n arbitrary: outp out_pos) (auto simp: fun_eq_iff store_at_def nth_Cons')

lemma length_rle_encode: "length (rle_encode runs) = 2 * length runs"
  by (induction runs) (auto simp: rle_encode_def)

text \<open>
  The loop invariant of the round trip: with the pairs of \<open>runs\<close> ahead of \<open>in_pos\<close>
  and room for their expansion, the loop stores the expansion at \<open>out_pos\<close>, succeeds,
  and reads exactly the indices up to \<open>input_len\<close>.
\<close>

lemma rle_loop_runs:
  assumes "\<forall>k<2 * length runs. input (in_pos + k) = rle_encode runs ! k"
    and "input_len = in_pos + 2 * length runs"
    and "out_pos + length (rle_stream runs) \<le> output_len"
  shows "rle_loop input input_len output_len outp in_pos out_pos reads =
           \<lparr>rle_status = ESP_OK, rle_output = store_at out_pos (rle_stream runs) outp,
            rle_reads = reads @ [in_pos..<input_len]\<rparr>"
  using assms
proof (induction runs arbitrary: outp in_pos out_pos reads)
  case Nil
  then show ?case
    by (subst rle_loop.simps) (simp add: rle_stream_def store_at_Nil)
next
  case (Cons run runs)
  obtain c v where run: "run = (c, v)" by (cases run)
  have enc: "rle_encode (run # runs) = c # v # rle_encode runs"
    by (simp add: rle_encode_def run)
  have str: "rle_stream (run # runs) = replicate (unat c) v @ rle_stream runs"
    by (simp add: rle_stream_def run)
  have c: "input in_pos = c"
    using Cons.prems(1)[rule_format, of 0] by (simp add: enc)
  have v: "input (Suc in_pos) = v"
    using Cons.prems(1)[rule_format, of 1] by (simp add: enc)
  have rest: "\<forall>k<2 * length runs. input (in_pos + 2 + k) = rle_encode runs ! k"
  proof (intro allI impI)
    fix k assume "k < 2 * length runs"
    then show "input (in_pos + 2 + k) = rle_encode runs ! k"
      using Cons.prems(1)[rule_format, of "k + 2"] by (simp add: enc add.assoc)
  qed
  have len: "input_len = in_pos + 2 + 2 * length runs"
    using Cons.prems(2) by simp
  have fits: "out_pos + unat c + length (rle_stream runs) \<le> output_len"
    using Cons.prems(3) by (simp add: str)
  have step: "rle_loop input input_len output_len outp in_pos out_pos reads =
      rle_loop input input_len output_len (rle_fill outp out_pos (unat c) v)
        (in_pos + 2) (out_pos + unat c) (reads @ [in_pos, in_pos + 1])"
    using fits len by (subst rle_loop.simps) (simp add: c v Let_def)
  have "in_pos < input_len" "Suc in_pos < input_len"
    using len by simp_all
  then have idx: "[in_pos..<input_len] = [in_pos, in_pos + 1] @ [in_pos + 2..<input_len]"
    by (simp add: upt_conv_Cons)
  show ?case
    unfolding step Cons.IH[OF rest len fits]
    using store_at_append[of out_pos "replicate (unat c) v" "rle_stream runs" outp]
    by (simp add: rle_fill_eq str idx)
qed

text \<open>The run-length decoder never changes the output at or beyond \<open>output_len\<close>.\<close>

lemma rle_loop_bounded:
  "output_len \<le> i \<Longrightarrow>
   rle_output (rle_loop input input_len output_len outp in_pos out_pos reads) i = outp i"
proof (induction input input_len output_len outp in_pos out_pos reads rule: rle_loop.induct)
  case (1 input input_len output_len outp in_pos out_pos reads)
  show ?case
  proof (cases "in_pos + 1 \<le> input_len \<and> \<not> out_pos + unat (input in_pos) > output_len")
    case True
    then have "rle_output (rle_loop input input_len output_len outp in_pos out_pos reads) i =
        rle_fill outp out_pos (unat (input in_pos)) (input (in_pos + 1)) i"
      using "1.IH"[OF _ refl refl refl _ "1.prems"]
      by (subst rle_loop.simps) (simp add: Let_def)
    also have "\<dots> = outp i"
      using True "1.prems" by (simp add: rle_fill_eq store_at_def)
    finally show ?thesis .
  next
    case False
    then show ?thesis
      by (subst rle_loop.simps) (auto simp: Let_def)
  qed
qed

text \<open>
  A stream of pairs whose expansion does not fit the output makes the decoder fail.
\<close>

lemma rle_loop_overflow:
  assumes "\<forall>k<2 * length runs. input (in_pos + k) = rle_encode runs ! k"
    and "input_len = in_pos + 2 * length runs"
    and "out_pos \<le> output_len"
    and "out_pos + length (rle_stream runs) > output_len"
  shows "rle_status (rle_loop input input_len output_len outp in_pos out_pos reads) = ESP_FAIL"
  using assms
proof (induction runs arbitrary: outp in_pos out_pos reads)
  case Nil
  then show ?case
    by (simp add: rle_stream_def)
next
  case (Cons run runs)
  obtain c v where run: "run = (c, v)" by (cases run)
  have enc: "rle_encode (run # runs) = c # v # rle_encode runs"
    by (simp add: rle_encode_def run)
  have str: "rle_stream (run # runs) = replicate (unat c) v @ rle_stream runs"
    by (simp add: rle_stream_def run)
  have c: "input in_pos = c"
    using Cons.prems(1)[rule_format, of 0] by (simp add: enc)
  have rest: "\<forall>k<2 * length runs. input (in_pos + 2 + k) = rle_encode runs ! k"
  proof (intro allI impI)
    fix k assume "k < 2 * length runs"
    then show "input (in_pos + 2 + k) = rle_encode runs ! k"
      using Cons.prems(1)[rule_format, of "k + 2"] by (simp add: enc add.assoc)
  qed
  have len: "input_len = in_pos + 2 + 2 * length runs"
    using Cons.prems(2) by simp
  show ?case
  proof (cases "out_pos + unat c > output_len")
    case True
    then show ?thesis
      using len by (subst rle_loop.simps) (simp add: c Let_def)
  next
    case False
    then have fits: "out_pos + unat c \<le> output_len" by simp
    have over: "out_pos + unat c + length (rle_stream runs) > output_len"
      using Cons.prems(4) by (simp add: str)
    have "rle_loop input input_len output_len outp in_pos out_pos reads =
        rle_loop input input_len output_len (rle_fill outp out_pos (unat c) (input (in_pos + 1)))
          (in_pos + 2) (out_pos + unat c) (reads @ [in_pos, in_pos + 1])"
      using fits len by (subst rle_loop.simps) (simp add: c Let_def)
    then show ?thesis
      using Cons.IH[OF rest len fits over] by simp
  qed
qed

lemma rle_decode_overflow:
  assumes "\<forall>k<2 * length runs. input k = rle_encode runs ! k"
    and "output_len < length (rle_stream runs)"
  shows "rle_status (gfx_aaf_rle_decode input (2 * length runs) outp output_len) = ESP_FAIL"
  unfolding gfx_aaf_rle_decode_def
  using rle_loop_overflow[of runs input 0 "2 * length runs" 0 output_len] assms by simp

text \<open>
  Claim C6. A stream written as (count, value) pairs, whatever the counts, decodes into an
  output buffer that has room for it to exactly the stream, stored from index 0 with the
  rest of the buffer untouched, and the call succeeds; the input of length zero succeeds
  and stores nothing.
\<close>

theorem rle_round_trip:
  assumes "length (rle_stream runs) \<le> output_len"
  shows "rle_status (gfx_aaf_rle_decode (load (rle_encode runs) m) (length (rle_encode runs))
            outp output_len) = ESP_OK
       \<and> rle_output (gfx_aaf_rle_decode (load (rle_encode runs) m) (length (rle_encode runs))
            outp output_len) = load (rle_stream runs) outp
       \<and> rle_status (gfx_aaf_rle_decode m 0 outp output_len) = ESP_OK
       \<and> rle_output (gfx_aaf_rle_decode m 0 outp output_len) = outp"
proof -
  have "rle_loop (load (rle_encode runs) m) (length (rle_encode runs)) output_len outp 0 0 [] =
      \<lparr>rle_status = ESP_OK, rle_output = store_at 0 (rle_stream runs) outp,
       rle_reads = [] @ [0..<length (rle_encode runs)]\<rparr>"
    by (rule rle_loop_runs) (use assms in \<open>simp_all add: length_rle_encode load_def\<close>)
  moreover have "rle_loop m 0 output_len outp 0 0 [] =
      \<lparr>rle_status = ESP_OK, rle_output = outp, rle_reads = []\<rparr>"
    by (subst rle_loop.simps) simp
  ultimately show ?thesis
    by (simp add: gfx_aaf_rle_decode_def store_at_0)
qed

theorem rle_round_trip_witness:
  "length (rle_stream [(2, 65), (1, 66)]) \<le> 3
   \<and> rle_status (gfx_aaf_rle_decode (load (rle_encode [(2, 65), (1, 66)]) (\<lambda>_. 0))
         (length (rle_encode [(2, 65), (1, 66)])) (\<lambda>_. 0) 3) = ESP_OK
   \<and> rle_output (gfx_aaf_rle_decode (load (rle_encode [(2, 65), (1, 66)]) (\<lambda>_. 0))
         (length (rle_encode [(2, 65), (1, 66)])) (\<lambda>_. 0) 3) = load [65, 65, 66] (\<lambda>_. 0)"
proof -
  have h: "length (rle_stream [(2, 65), (1, 66 :: byte)]) \<le> 3"
    by (simp add: rle_stream_def)
  have s: "rle_stream [(2, 65), (1, 66 :: byte)] = [65, 65, 66]"
    by code_simp
  show ?thesis
    using rle_round_trip[OF h, of "\<lambda>_. 0" "\<lambda>_. 0"] h by (simp add: s)
qed

text \<open>
  Claim C9. The claim asks that every read of the input is at an index below
  \<open>input_len\<close>. On a one-byte input whose byte is the count 3, the loop condition
  \<^verbatim>\<open>in_pos + 1 <= input_len\<close> holds at \<open>in_pos = 0\<close>, and the decoder reads the count
  at index 0 and then the value at index 1, which is \<open>input_len\<close> itself.
\<close>

theorem rle_reads_beyond_odd_input:
  "rle_reads (gfx_aaf_rle_decode (load [3] (\<lambda>_. 0)) 1 (\<lambda>_. 0) 8) = [0, 1]"
  by (simp add: gfx_aaf_rle_decode_def load_def rle_loop.simps)

section \<open>Container index\<close>

lemma checksum_loop_sum:
  "i \<le> len \<Longrightarrow> checksum_loop data len c i = c + (\<Sum>k = i..<len. ucast (data k))"
proof (induction data len c i rule: checksum_loop.induct)
  case (1 data len checksum i)
  show ?case
  proof (cases "i < len")
    case True
    then show ?thesis
      using 1 by (subst checksum_loop.simps) (simp add: sum.atLeast_Suc_lessThan add.assoc)
  next
    case False
    then show ?thesis
      using 1 by (subst checksum_loop.simps) simp
  qed
qed

lemma calc_checksum_sum:
  "gfx_aaf_format_calc_checksum data len = (\<Sum>k = 0..<unat len. ucast (data k))"
  by (simp add: gfx_aaf_format_calc_checksum_def checksum_loop_sum)

lemma ucast_byte_inj:
  assumes "(ucast (a :: byte) :: 32 word) = ucast (b :: byte)"
  shows "a = b"
proof -
  have up: "is_up (ucast :: byte \<Rightarrow> 32 word)"
    by (simp add: is_up)
  have "(ucast (ucast a :: 32 word) :: byte) = ucast (ucast b :: 32 word)"
    using assms by simp
  then show ?thesis
    by (simp add: ucast_up_ucast_id[OF up])
qed

lemma read_u32_update:
  "p + 3 < q \<Longrightarrow> read_u32 (data(q := b)) p = read_u32 data p"
  by (simp add: read_u32_def)

text \<open>Replacing one summed byte by a different byte changes the 32-bit sum.\<close>

lemma checksum_update:
  assumes "j < unat len" and "b \<noteq> data j"
  shows "gfx_aaf_format_calc_checksum (data(j := b)) len \<noteq> gfx_aaf_format_calc_checksum data len"
proof -
  let ?A = "{0..<unat len}"
  have fin: "finite ?A" and mem: "j \<in> ?A"
    using assms(1) by simp_all
  have rest: "(\<Sum>k\<in>?A - {j}. (ucast ((data(j := b)) k) :: 32 word)) =
      (\<Sum>k\<in>?A - {j}. ucast (data k))"
    by (rule sum.cong) simp_all
  have new: "gfx_aaf_format_calc_checksum (data(j := b)) len =
      ucast b + (\<Sum>k\<in>?A - {j}. ucast (data k))"
    unfolding calc_checksum_sum sum.remove[OF fin mem] rest by simp
  have old: "gfx_aaf_format_calc_checksum data len =
      ucast (data j) + (\<Sum>k\<in>?A - {j}. ucast (data k))"
    unfolding calc_checksum_sum sum.remove[OF fin mem] by simp
  show ?thesis
    unfolding new old using assms(2) ucast_byte_inj[of b "data j"] by auto
qed

lemma sample_container_opens:
  "gfx_aaf_format_init True sample_container 26 =
     Inr \<lparr>container = sample_container, entries = [\<lparr>asset_mem = 24, table = 16\<rparr>],
          total_frames = 1\<rparr>"
  by (simp add: gfx_aaf_format_init_def sample_container_def load_def ptr_add_def read_u32_def
      read_u16_def Let_def GFX_AAF_TABLE_LEN_def GFX_AAF_TABLE_OFFSET_def
      GFX_AAF_CHECKSUM_OFFSET_def GFX_AAF_FORMAT_OFFSET_def GFX_AAF_FORMAT_MAGIC_def
      GFX_AAF_STR_OFFSET_def GFX_AAF_FORMAT_STR_def GFX_AAF_NUM_OFFSET_def GFX_AAF_MAGIC_HEAD_def
      gfx_aaf_format_calc_checksum_def checksum_loop.simps entries_loop.simps to_size_t_def
      upt_conv_Cons)

lemma sample_container_len: "unat (read_u32 sample_container GFX_AAF_TABLE_LEN) = 10"
  by (simp add: sample_container_def load_def read_u32_def GFX_AAF_TABLE_LEN_def)

lemma sample_container_19: "sample_container (GFX_AAF_TABLE_OFFSET + 3) = 0"
  by (simp add: sample_container_def load_def GFX_AAF_TABLE_OFFSET_def)

text \<open>
  Claim C5. If \<^verbatim>\<open>gfx_aaf_format_init\<close> accepts a buffer, then the buffer with one byte
  of the region of \<open>stored_len\<close> bytes at offset 16 replaced by a different byte is
  rejected with \<^verbatim>\<open>ESP_ERR_INVALID_CRC\<close>, the error of an invalid container.
\<close>

theorem checksum_rejects_mutation:
  assumes "gfx_aaf_format_init a data data_len = Inr ctx"
    and "j < unat (read_u32 data GFX_AAF_TABLE_LEN)"
    and "b \<noteq> data (GFX_AAF_TABLE_OFFSET + j)"
  shows "gfx_aaf_format_init a (data(GFX_AAF_TABLE_OFFSET + j := b)) data_len =
           Inl ESP_ERR_INVALID_CRC"
proof -
  let ?d = "data(GFX_AAF_TABLE_OFFSET + j := b)"
  have a: "a"
    using assms(1) by (auto simp: gfx_aaf_format_init_def split: if_splits)
  have chk: "gfx_aaf_format_calc_checksum (ptr_add data GFX_AAF_TABLE_OFFSET)
      (read_u32 data GFX_AAF_TABLE_LEN) = read_u32 data GFX_AAF_CHECKSUM_OFFSET"
    using assms(1) by (auto simp: gfx_aaf_format_init_def Let_def split: if_splits)
  have len: "read_u32 ?d GFX_AAF_TABLE_LEN = read_u32 data GFX_AAF_TABLE_LEN"
    by (rule read_u32_update) (simp add: GFX_AAF_TABLE_LEN_def GFX_AAF_TABLE_OFFSET_def)
  have sto: "read_u32 ?d GFX_AAF_CHECKSUM_OFFSET = read_u32 data GFX_AAF_CHECKSUM_OFFSET"
    by (rule read_u32_update) (simp add: GFX_AAF_CHECKSUM_OFFSET_def GFX_AAF_TABLE_OFFSET_def)
  have "gfx_aaf_format_calc_checksum (ptr_add ?d GFX_AAF_TABLE_OFFSET)
      (read_u32 data GFX_AAF_TABLE_LEN) \<noteq> read_u32 data GFX_AAF_CHECKSUM_OFFSET"
    unfolding ptr_add_update chk[symmetric]
    by (rule checksum_update) (use assms in \<open>simp_all add: ptr_add_def\<close>)
  then show ?thesis
    using a by (simp add: gfx_aaf_format_init_def Let_def len sto)
qed

theorem checksum_rejects_mutation_witness:
  "gfx_aaf_format_init True sample_container 26 =
     Inr \<lparr>container = sample_container, entries = [\<lparr>asset_mem = 24, table = 16\<rparr>],
          total_frames = 1\<rparr>
   \<and> 3 < unat (read_u32 sample_container GFX_AAF_TABLE_LEN)
   \<and> 7 \<noteq> sample_container (GFX_AAF_TABLE_OFFSET + 3)
   \<and> gfx_aaf_format_init True (sample_container(GFX_AAF_TABLE_OFFSET + 3 := 7)) 26 =
       Inl ESP_ERR_INVALID_CRC"
proof -
  have l: "3 < unat (read_u32 sample_container GFX_AAF_TABLE_LEN)"
    by (simp add: sample_container_len)
  have b: "7 \<noteq> sample_container (GFX_AAF_TABLE_OFFSET + 3)"
    by (simp add: sample_container_19)
  show ?thesis
    using checksum_rejects_mutation[OF sample_container_opens l b] sample_container_opens l b
    by blast
qed

text \<open>
  Claim C10. The claim asks for \<^verbatim>\<open>NULL\<close> and \<open>-1\<close> at every index outside
  \<open>0 \<le> index < total_frames\<close>, without a read of the entries. On the handle of the
  sample container, which has one frame, index \<open>-1\<close> passes the only test
  \<^verbatim>\<open>parser->total_frames > index\<close>, and both accessors read \<^verbatim>\<open>entries[-1]\<close>.
\<close>

theorem frame_accessors_negative_index:
  "gfx_aaf_format_init True sample_container 26 =
     Inr \<lparr>container = sample_container, entries = [\<lparr>asset_mem = 24, table = 16\<rparr>],
          total_frames = 1\<rparr>
   \<and> gfx_aaf_format_get_frame_data
       \<lparr>container = sample_container, entries = [\<lparr>asset_mem = 24, table = 16\<rparr>],
        total_frames = 1\<rparr> (- 1) = Outside (- 1)
   \<and> gfx_aaf_format_get_frame_size
       \<lparr>container = sample_container, entries = [\<lparr>asset_mem = 24, table = 16\<rparr>],
        total_frames = 1\<rparr> (- 1) = Outside (- 1)"
  by (simp add: sample_container_opens gfx_aaf_format_get_frame_data_def
      gfx_aaf_format_get_frame_size_def entry_at_def)

text \<open>Inside the range both accessors return a value; at or above it, the failure value.\<close>

lemma frame_accessors_upper_bound:
  "total_frames parser \<le> index \<Longrightarrow>
   gfx_aaf_format_get_frame_data parser index = Invalid \<and>
   gfx_aaf_format_get_frame_size parser index = Invalid"
  by (simp add: gfx_aaf_format_get_frame_data_def gfx_aaf_format_get_frame_size_def)

text \<open>
  A handle that \<^verbatim>\<open>gfx_aaf_format_init\<close> returned has as many entries as frames, so
  for \<open>0 \<le> index < total_frames\<close> both accessors read an entry of the array.
\<close>

lemma entries_loop_length:
  "entries_loop data n i es = Inr es' \<Longrightarrow> length es' = length es + nat (n - i)"
proof (induction data n i es rule: entries_loop.induct)
  case (1 data n i es)
  show ?case
  proof (cases "i < n")
    case True
    let ?tbl = "GFX_AAF_TABLE_OFFSET + nat i * 8"
    let ?mem = "GFX_AAF_TABLE_OFFSET + to_size_t (n * 8) + unat (read_u32 data (?tbl + 4))"
    have magic: "read_u16 data ?mem = GFX_AAF_MAGIC_HEAD"
      using "1.prems" True by (subst (asm) entries_loop.simps) (auto simp: Let_def split: if_splits)
    then have "entries_loop data n (i + 1) (es @ [\<lparr>asset_mem = ?mem, table = ?tbl\<rparr>]) = Inr es'"
      using "1.prems" True by (subst (asm) entries_loop.simps) (simp add: Let_def)
    then have "length es' = length (es @ [\<lparr>asset_mem = ?mem, table = ?tbl\<rparr>]) + nat (n - (i + 1))"
      using "1.IH"[OF True refl refl magic] by simp
    then show ?thesis using True by simp
  next
    case False
    then show ?thesis
      using "1.prems" by (subst (asm) entries_loop.simps) simp
  qed
qed

lemma init_entries_length:
  "gfx_aaf_format_init a data data_len = Inr ctx \<Longrightarrow>
   length (entries ctx) = nat (total_frames ctx)"
  by (auto simp add: gfx_aaf_format_init_def Let_def dest: entries_loop_length
      split: if_splits sum.splits)

lemma frame_accessors_in_range:
  assumes "gfx_aaf_format_init a data data_len = Inr ctx"
    and "0 \<le> index" "index < total_frames ctx"
  shows "gfx_aaf_format_get_frame_data ctx index =
           Value (asset_mem (entries ctx ! nat index) + GFX_AAF_MAGIC_LEN)"
    and "gfx_aaf_format_get_frame_size ctx index =
           Value (sint (read_u32 (container ctx) (table (entries ctx ! nat index))
                        - of_nat GFX_AAF_MAGIC_LEN))"
  using assms init_entries_length[OF assms(1)]
  by (simp_all add: gfx_aaf_format_get_frame_data_def gfx_aaf_format_get_frame_size_def
      entry_at_def)

section \<open>Huffman engine\<close>

text \<open>\<^verbatim>\<open>decode_huffman_data\<close> has no failing return.\<close>

lemma decode_huffman_data_status:
  "huff_status (decode_huffman_data data data_len dict_bytes dict_len outp) = ESP_OK"
  by (auto simp: decode_huffman_data_def Let_def split: option.splits prod.splits)

text \<open>
  Claim C2. The claim asks that a bit sequence that runs off the tree stops the output,
  that \<^verbatim>\<open>output_len\<close> reports the bytes decoded before, and that the call fails. The
  dictionary below holds the single code \<open>0\<close> for the value \<open>0x41\<close>; the data byte \<open>0x40\<close>
  is the bit string \<open>01000000\<close>. The first bit decodes \<open>0x41\<close>, the second bit leads to the
  missing right child of the root. The engine stops and reports one byte, and the call
  returns \<^verbatim>\<open>ESP_OK\<close>.
\<close>

theorem huffman_invalid_path_returns_ok:
  "huff_status (gfx_aaf_huffman_decode (Some (huffman_block 3 0 0x40)) 8 (\<lambda>_. 0) 0) = ESP_OK
   \<and> huff_output_len (gfx_aaf_huffman_decode (Some (huffman_block 3 0 0x40)) 8 (\<lambda>_. 0) 0) = 1
   \<and> huff_output (gfx_aaf_huffman_decode (Some (huffman_block 3 0 0x40)) 8 (\<lambda>_. 0) 0) 0 = 0x41"
  by (simp add: gfx_aaf_huffman_decode_def decode_huffman_data_def huffman_block_def load_def
      ptr_add_def Let_def build_tree.simps huffman_loop.simps create_node_def to_size_t_def)

subsection \<open>Bits of codes and payloads\<close>

lemma code_value_Nil: "code_value [] = 0"
  by (simp add: code_value_def)

lemma code_value_snoc: "code_value (bs @ [b]) = 2 * code_value bs + (if b then 1 else 0)"
  by (simp add: code_value_def)

text \<open>Bit \<open>k\<close> of the value of a code is the bit \<open>k\<close> places from its end.\<close>

lemma bit_code_value: "bit (code_value bs) k \<longleftrightarrow> k < length bs \<and> bs ! (length bs - 1 - k)"
proof (induction bs arbitrary: k rule: rev_induct)
  case Nil
  then show ?case by (simp add: code_value_Nil)
next
  case (snoc b bs)
  show ?case
  proof (cases k)
    case 0
    then show ?thesis by (simp add: code_value_snoc bit_0)
  next
    case (Suc j)
    have "(2 * code_value bs + (if b then 1 else 0)) div 2 = code_value bs"
      by simp
    then have "bit (code_value (bs @ [b])) (Suc j) \<longleftrightarrow> bit (code_value bs) j"
      by (simp add: code_value_snoc bit_Suc)
    also have "\<dots> \<longleftrightarrow> j < length bs \<and> bs ! (length bs - 1 - j)"
      by (rule snoc.IH)
    also have "\<dots> \<longleftrightarrow> Suc j < length (bs @ [b]) \<and> (bs @ [b]) ! (length (bs @ [b]) - 1 - Suc j)"
      by (auto simp: nth_append)
    finally show ?thesis by (simp add: Suc)
  qed
qed

lemma drop_bit_and_1: "(drop_bit n (w :: 'a::len word) AND 1 = 0) \<longleftrightarrow> \<not> bit w n"
  by (simp add: and_one_eq bit_iff_odd_drop_bit even_iff_mod_2_eq_zero)

lemma length_pack_bits: "length (pack_bits bs) = length bs div 8"
  by (simp add: pack_bits_def)

text \<open>The decoder's bit \<open>k\<close> of a packed payload is bit \<open>k\<close> of the bit list.\<close>

lemma data_bit_packed:
  assumes "k < length bs" and "length bs mod 8 = 0"
  shows "data_bit (load (pack_bits bs) m) k = bs ! k"
proof -
  let ?chunk = "take 8 (drop (8 * (k div 8)) bs)"
  have "8 dvd length bs"
    using assms(2) by (simp add: dvd_eq_mod_eq_0)
  then obtain n where n: "length bs = n * 8"
    by (auto elim: dvdE)
  have kn: "k div 8 < n"
    using assms(1) unfolding n by (rule less_mult_imp_div_less)
  then have kd: "k div 8 < length bs div 8"
    by (simp add: n)
  have "Suc (k div 8) \<le> n"
    using kn by simp
  then have "8 * Suc (k div 8) \<le> 8 * n"
    by (rule mult_le_mono2)
  then have full: "8 * (k div 8) + 8 \<le> length bs"
    by (simp add: n)
  have len: "length ?chunk = 8"
    using full by simp
  have lt: "7 - k mod 8 < 8"
    by (rule le_less_trans[OF diff_le_self]) simp
  have byte: "load (pack_bits bs) m (k div 8) = of_int (code_value ?chunk)"
    using kd by (simp add: load_def pack_bits_def)
  have "data_bit (load (pack_bits bs) m) k \<longleftrightarrow> bit (of_int (code_value ?chunk) :: byte) (7 - k mod 8)"
    unfolding data_bit_def byte
    using drop_bit_and_1[of "7 - k mod 8" "of_int (code_value ?chunk) :: byte"]
    by blast
  also have "\<dots> \<longleftrightarrow> bit (code_value ?chunk) (7 - k mod 8)"
    using lt by (simp add: bit_of_int_iff)
  also have "\<dots> \<longleftrightarrow> ?chunk ! (8 - 1 - (7 - k mod 8))"
    unfolding bit_code_value len using lt by simp
  also have "8 - 1 - (7 - k mod 8) = k mod 8"
  proof -
    have "k mod 8 < 8" by simp
    then show ?thesis by linarith
  qed
  also have "?chunk ! (k mod 8) = bs ! (8 * (k div 8) + k mod 8)"
    using full by simp
  also have "8 * (k div 8) + k mod 8 = k"
    by simp
  finally show ?thesis .
qed

lemma be_bytes_Suc_0: "be_bytes (Suc n) x ! 0 = of_int (x div 256 ^ n)"
  unfolding be_bytes_def by (subst nth_map_upt) simp_all

lemma be_bytes_Suc_Suc: "i < n \<Longrightarrow> be_bytes (Suc n) x ! Suc i = be_bytes n x ! i"
  unfolding be_bytes_def by (subst nth_map_upt, simp, subst nth_map_upt, simp, simp)

lemma length_be_bytes: "length (be_bytes n x) = n"
  by (simp add: be_bytes_def)

text \<open>
  The bits of the accumulated code: below \<open>8 * n\<close> they are the bits of the number the
  bytes spell, above they are the bits the accumulator had, shifted; bits that leave the
  64-bit word are lost.
\<close>

lemma bit_read_code:
  assumes "\<forall>i<n. dict (p + i) = be_bytes n x ! i"
  shows "bit (read_code dict p n acc) k \<longleftrightarrow>
           k < 64 \<and> (if k < 8 * n then bit x k else bit acc (k - 8 * n))"
  using assms
proof (induction n arbitrary: p acc)
  case 0
  then show ?case by (auto dest: bit_imp_le_length)
next
  case (Suc n)
  have d0: "dict p = of_int (x div 256 ^ n)"
    using Suc.prems[rule_format, of 0] by (simp add: be_bytes_Suc_0)
  have rest: "\<forall>i<n. dict (Suc p + i) = be_bytes n x ! i"
  proof (intro allI impI)
    fix i assume "i < n"
    then show "dict (Suc p + i) = be_bytes n x ! i"
      using Suc.prems[rule_format, of "Suc i"] by (simp add: be_bytes_Suc_Suc)
  qed
  have pw: "(256 :: int) ^ n = 2 ^ (8 * n)"
    by (simp add: power_mult)
  have dv: "x div 2 ^ (8 * n) = drop_bit (8 * n) x"
    by (simp add: drop_bit_eq_div)
  have byte: "bit (ucast (dict p) :: 64 word) j \<longleftrightarrow> j < 8 \<and> bit x (8 * n + j)" for j
    unfolding d0 pw dv by (auto simp: bit_ucast_iff bit_of_int_iff bit_drop_bit_eq)
  have acc': "bit (push_bit 8 acc OR ucast (dict p) :: 64 word) j \<longleftrightarrow>
      (8 \<le> j \<and> j < 64 \<and> bit acc (j - 8)) \<or> (j < 8 \<and> bit x (8 * n + j))" for j
    by (simp add: bit_or_iff bit_push_bit_iff byte)
  have step: "bit (read_code dict p (Suc n) acc) k \<longleftrightarrow>
      k < 64 \<and> (if k < 8 * n then bit x k
                else bit (push_bit 8 acc OR ucast (dict p) :: 64 word) (k - 8 * n))"
    unfolding read_code.simps by (rule Suc.IH[OF rest])
  show ?case
  proof (cases "k < 8 * n")
    case True
    then show ?thesis
      unfolding step by simp
  next
    case False
    show ?thesis
    proof (cases "k < 8 * n + 8")
      case True
      have a: "8 * n + (k - 8 * n) = k" "k - 8 * n < 8" "k < 8 * Suc n" "\<not> 8 \<le> k - 8 * n"
        using True False by simp_all
      show ?thesis
        unfolding step acc' using False True a by simp
    next
      case ge: False
      have a: "\<not> k - 8 * n < 8" "8 \<le> k - 8 * n" "k - 8 * n - 8 = k - 8 * Suc n"
          "\<not> k < 8 * Suc n" "k < 64 \<Longrightarrow> k - 8 * n < 64"
        using ge False by simp_all
      show ?thesis
        unfolding step acc' using False a by auto
    qed
  qed
qed

subsection \<open>Insertion into the tree\<close>

text \<open>
  The bits the insertion loop reads from the accumulated code are the bits of the code,
  first bit first, for a code of at most 64 bits.
\<close>

lemma code_path:
  assumes "\<forall>i<n. dict (p + i) = be_bytes n (code_value bs) ! i"
    and "length bs \<le> 64" and "length bs \<le> 8 * n"
  shows "map (\<lambda>b. drop_bit b (read_code dict p n 0) AND 1 \<noteq> 0) (rev [0..<length bs]) = bs"
proof (rule nth_equalityI)
  show "length (map (\<lambda>b. drop_bit b (read_code dict p n 0) AND 1 \<noteq> 0) (rev [0..<length bs])) = length bs"
    by simp
next
  fix i
  assume "i < length (map (\<lambda>b. drop_bit b (read_code dict p n 0) AND 1 \<noteq> 0) (rev [0..<length bs]))"
  then have i: "i < length bs" by simp
  then have r: "rev [0..<length bs] ! i = length bs - 1 - i"
    by (simp add: rev_nth)
  have lt: "length bs - 1 - i < 64" "length bs - 1 - i < 8 * n" "length bs - 1 - i < length bs"
    using i assms(2,3) by simp_all
  have idx: "length bs - 1 - (length bs - 1 - i) = i"
    using i by simp
  have "(drop_bit (length bs - 1 - i) (read_code dict p n 0) AND 1 \<noteq> 0) \<longleftrightarrow>
      bit (read_code dict p n 0) (length bs - 1 - i)"
    using drop_bit_and_1[of "length bs - 1 - i" "read_code dict p n 0"] by blast
  also have "\<dots> \<longleftrightarrow> bit (code_value bs) (length bs - 1 - i)"
    unfolding bit_read_code[OF assms(1)] using lt by simp
  also have "\<dots> \<longleftrightarrow> bs ! i"
    unfolding bit_code_value idx using lt by simp
  finally show "map (\<lambda>b. drop_bit b (read_code dict p n 0) AND 1 \<noteq> 0) (rev [0..<length bs]) ! i = bs ! i"
    using i by (simp add: r)
qed

lemma insert_code_path:
  "insert_code code n v t = insert_path (map (\<lambda>b. drop_bit b code AND 1 \<noteq> 0) (rev [0..<n])) v t"
proof (induction n arbitrary: t)
  case 0
  then show ?case by (cases t) simp
next
  case (Suc n)
  then show ?case by (cases t) simp
qed

lemma walk_append:
  "walk t (p @ q) = (case walk t p of None \<Rightarrow> None | Some n \<Rightarrow> walk n q)"
  by (induction p arbitrary: t) (auto split: option.splits)

lemma leaf_at_create: "leaf_at create_node p = None"
  by (cases p) (simp_all add: leaf_at_def create_node_def)

lemma leaf_at_Nil: "leaf_at n [] = (if is_leaf n \<noteq> 0 then Some (val n) else None)"
  by (simp add: leaf_at_def)

lemma leaf_at_Cons:
  "leaf_at (Node l u lt rt) (c # q) =
     (case (if c then rt else lt) of None \<Rightarrow> None | Some n \<Rightarrow> leaf_at n q)"
  by (simp add: leaf_at_def split: option.splits)

text \<open>An insertion makes its path a leaf and changes no other leaf.\<close>

lemma leaf_at_insert:
  "leaf_at (insert_path p v t) q = (if q = p then Some v else leaf_at t q)"
proof (induction p arbitrary: t q)
  case Nil
  then show ?case
    by (cases t; cases q) (simp_all add: leaf_at_Nil leaf_at_Cons)
next
  case (Cons b p)
  obtain l u lt rt where t: "t = Node l u lt rt" by (cases t)
  show ?case
  proof (cases q)
    case Nil
    then show ?thesis by (simp add: t leaf_at_Nil)
  next
    case q: (Cons c q')
    show ?thesis
      unfolding q t
      by (cases b; cases c; cases lt; cases rt)
        (simp_all add: leaf_at_Cons Cons.IH leaf_at_create)
  qed
qed

lemma reaches_Nil: "reaches t [] = True"
  by (simp add: reaches_def)

lemma reaches_Cons:
  "reaches (Node l u lt rt) (c # q) =
     (case (if c then rt else lt) of None \<Rightarrow> False | Some n \<Rightarrow> reaches n q)"
  by (simp add: reaches_def split: option.splits)

lemma reaches_create: "reaches create_node q = (q = [])"
  by (cases q) (simp_all add: reaches_def create_node_def)

text \<open>An insertion creates the nodes on its path and removes none.\<close>

lemma reaches_insert:
  "reaches (insert_path p v t) q \<longleftrightarrow> reaches t q \<or> prefix q p"
proof (induction p arbitrary: t q)
  case Nil
  then show ?case
    by (cases t; cases q) (simp_all add: reaches_Nil reaches_Cons)
next
  case (Cons b p)
  obtain l u lt rt where t: "t = Node l u lt rt" by (cases t)
  show ?case
  proof (cases q)
    case Nil
    then show ?thesis by (simp add: t reaches_Nil)
  next
    case q: (Cons c q')
    show ?thesis
      unfolding q t
      by (cases b; cases c; cases lt; cases rt)
        (auto simp add: reaches_Cons Cons.IH reaches_create)
  qed
qed

text \<open>The tree built from a table.\<close>

lemma leaf_at_build_other:
  "q \<notin> snd ` set tbl \<Longrightarrow>
   leaf_at (foldl (\<lambda>t e. insert_path (snd e) (fst e) t) t0 tbl) q = leaf_at t0 q"
  by (induction tbl arbitrary: t0) (auto simp: leaf_at_insert)

lemma leaf_at_build_entry:
  "distinct (map snd tbl) \<Longrightarrow> (v, c) \<in> set tbl \<Longrightarrow>
   leaf_at (foldl (\<lambda>t e. insert_path (snd e) (fst e) t) t0 tbl) c = Some v"
proof (induction tbl arbitrary: t0)
  case Nil
  then show ?case by simp
next
  case (Cons e tbl)
  show ?case
  proof (cases "(v, c) = e")
    case True
    have "c \<notin> snd ` set tbl"
      using Cons.prems(1) True[symmetric] by simp
    then show ?thesis
      using True[symmetric] by (simp add: leaf_at_build_other leaf_at_insert)
  next
    case False
    then have "(v, c) \<in> set tbl"
      using Cons.prems(2) by auto
    then show ?thesis
      using Cons.IH Cons.prems(1) by simp
  qed
qed

lemma leaf_at_build_only:
  "leaf_at (foldl (\<lambda>t e. insert_path (snd e) (fst e) t) t0 tbl) q = Some v \<Longrightarrow>
   (v, q) \<in> set tbl \<or> leaf_at t0 q = Some v"
proof (induction tbl arbitrary: t0)
  case Nil
  then show ?case by simp
next
  case (Cons e tbl)
  from Cons.IH[of "insert_path (snd e) (fst e) t0"] Cons.prems
  have "(v, q) \<in> set tbl \<or> leaf_at (insert_path (snd e) (fst e) t0) q = Some v"
    by simp
  then show ?case
    by (cases e) (auto simp: leaf_at_insert split: if_splits)
qed

lemma reaches_build_mono:
  "reaches t0 q \<Longrightarrow> reaches (foldl (\<lambda>t e. insert_path (snd e) (fst e) t) t0 tbl) q"
  by (induction tbl arbitrary: t0) (simp_all add: reaches_insert)

lemma reaches_build_prefix:
  "c \<in> snd ` set tbl \<Longrightarrow> prefix q c \<Longrightarrow>
   reaches (foldl (\<lambda>t e. insert_path (snd e) (fst e) t) t0 tbl) q"
proof (induction tbl arbitrary: t0)
  case Nil
  then show ?case by simp
next
  case (Cons e tbl)
  show ?case
  proof (cases "c = snd e")
    case True
    then have "reaches (insert_path (snd e) (fst e) t0) q"
      using Cons.prems(2) by (simp add: reaches_insert)
    then show ?thesis
      by (simp add: reaches_build_mono)
  next
    case False
    then have "c \<in> snd ` set tbl"
      using Cons.prems(1) by auto
    then show ?thesis
      using Cons.IH Cons.prems(2) by simp
  qed
qed

subsection \<open>Reconstruction and decoding\<close>

lemma length_table_entry_bytes:
  "length (table_entry_bytes e) = 2 + (length (snd e) + 7) div 8"
  by (simp add: table_entry_bytes_def length_be_bytes)

text \<open>
  The dictionary loop, run on the serialisation of a table whose codes have at most 64
  bits, inserts the codes of the table in order.
\<close>

lemma build_tree_table:
  assumes "\<forall>i < length (concat (map table_entry_bytes tbl)).
             dict (pos + i) = concat (map table_entry_bytes tbl) ! i"
    and "dict_len = pos + length (concat (map table_entry_bytes tbl))"
    and "\<forall>e \<in> set tbl. length (snd e) \<le> 64"
  shows "build_tree dict dict_len pos root =
           foldl (\<lambda>t e. insert_path (snd e) (fst e) t) root tbl"
  using assms
proof (induction tbl arbitrary: pos root)
  case Nil
  then show ?case by (subst build_tree.simps) simp
next
  case (Cons e tbl)
  let ?L = "length (snd e)"
  let ?n = "(?L + 7) div 8"
  let ?rest = "concat (map table_entry_bytes tbl)"
  have L: "?L \<le> 64" using Cons.prems(3) by simp
  have bytes: "concat (map table_entry_bytes (e # tbl)) =
      fst e # of_nat ?L # be_bytes ?n (code_value (snd e)) @ ?rest"
    by (simp add: table_entry_bytes_def)
  have at: "dict (pos + i) = (fst e # of_nat ?L # be_bytes ?n (code_value (snd e)) @ ?rest) ! i"
    if "i < 2 + ?n + length ?rest" for i
    using Cons.prems(1)[rule_format, of i] that unfolding bytes by (simp add: length_be_bytes)
  have v: "dict pos = fst e"
    using at[of 0] by simp
  have l: "dict (Suc pos) = of_nat ?L"
    using at[of 1] by simp
  have ul: "unat (of_nat ?L :: byte) = ?L"
    using L by (simp add: unat_of_nat)
  have code: "\<forall>i<?n. dict (pos + 2 + i) = be_bytes ?n (code_value (snd e)) ! i"
  proof (intro allI impI)
    fix i assume "i < ?n"
    then show "dict (pos + 2 + i) = be_bytes ?n (code_value (snd e)) ! i"
      using at[of "i + 2"] by (simp add: nth_append length_be_bytes add.assoc)
  qed
  have tail: "\<forall>i < length ?rest. dict (pos + 2 + ?n + i) = ?rest ! i"
  proof (intro allI impI)
    fix i assume "i < length ?rest"
    then show "dict (pos + 2 + ?n + i) = ?rest ! i"
      using at[of "i + ?n + 2"]
      by (simp add: nth_append length_be_bytes add.assoc add.commute add.left_commute)
  qed
  have len: "dict_len = pos + 2 + ?n + length ?rest"
    using Cons.prems(2) unfolding bytes by (simp add: length_be_bytes)
  have fit: "?L \<le> 8 * ?n"
  proof -
    have "8 * ?n + (?L + 7) mod 8 = ?L + 7"
      by (rule mult_div_mod_eq)
    moreover have "(?L + 7) mod 8 < 8"
      by simp
    ultimately show ?thesis
      by linarith
  qed
  have "insert_code (read_code dict (pos + 2) ?n 0) ?L (fst e) root =
      insert_path (snd e) (fst e) root"
    unfolding insert_code_path code_path[OF code L fit] ..
  then have path: "insert_code (read_code dict (Suc (Suc pos)) ?n 0) ?L (fst e) root =
      insert_path (snd e) (fst e) root"
    by simp
  have "build_tree dict dict_len pos root =
      build_tree dict dict_len (pos + 2 + ?n) (insert_path (snd e) (fst e) root)"
    using len by (subst build_tree.simps) (simp add: Let_def v l ul path)
  also have "\<dots> = foldl (\<lambda>t e. insert_path (snd e) (fst e) t) (insert_path (snd e) (fst e) root) tbl"
    by (rule Cons.IH[OF tail len]) (use Cons.prems(3) in simp)
  finally show ?case by simp
qed

lemma store_at_Cons: "store_at p (x # xs) m = store_at (Suc p) xs (m(p := x))"
  by (auto simp: store_at_def fun_eq_iff nth_Cons' Suc_diff_le)

text \<open>
  The loop over the bit stream stores, from \<open>out_pos\<close> on, what the list decoder emits
  for the bits from \<open>bit_index\<close> to \<open>total_bits\<close>.
\<close>

lemma huffman_loop_bits:
  "huffman_loop data total_bits root cur outp out_pos i =
     (store_at out_pos (decode_bits root cur (map (data_bit data) [i..<total_bits])) outp,
      out_pos + length (decode_bits root cur (map (data_bit data) [i..<total_bits])))"
proof (induction data total_bits root cur outp out_pos i rule: huffman_loop.induct)
  case (1 data total_bits root cur outp out_pos i)
  show ?case
  proof (cases "i < total_bits")
    case False
    then show ?thesis
      by (subst huffman_loop.simps) (simp add: store_at_Nil)
  next
    case True
    let ?b = "drop_bit (7 - i mod 8) (data (i div 8)) AND 1"
    let ?child = "if ?b = 0 then left cur else right cur"
    have up: "[i..<total_bits] = i # [Suc i..<total_bits]"
      using True by (simp add: upt_conv_Cons)
    have child: "(if data_bit data i then right cur else left cur) = ?child"
      by (simp add: data_bit_def)
    show ?thesis
    proof (cases ?child)
      case None
      then show ?thesis
        using True by (subst huffman_loop.simps) (simp add: up child Let_def store_at_Nil)
    next
      case (Some nxt)
      show ?thesis
      proof (cases "is_leaf nxt \<noteq> 0")
        case leaf: True
        have step: "huffman_loop data total_bits root cur outp out_pos i =
            huffman_loop data total_bits root root (outp(out_pos := val nxt)) (out_pos + 1) (i + 1)"
          using True Some leaf by (subst huffman_loop.simps) (simp add: Let_def)
        show ?thesis
          unfolding step "1.IH"(1)[OF True refl refl refl Some leaf]
          using Some leaf by (simp add: up child store_at_Cons)
      next
        case inner: False
        have step: "huffman_loop data total_bits root cur outp out_pos i =
            huffman_loop data total_bits root nxt outp out_pos (i + 1)"
          using True Some inner by (subst huffman_loop.simps) (simp add: Let_def)
        show ?thesis
          unfolding step "1.IH"(2)[OF True refl refl refl Some inner]
          using Some inner by (simp add: up child)
      qed
    qed
  qed
qed

text \<open>
  Decoding the rest of a code: from the node a proper prefix of the code leads to, the
  remaining bits emit the value of the code and return to the root.
\<close>

lemma decode_code:
  assumes leaves: "\<And>v c. (v, c) \<in> set tbl \<Longrightarrow> leaf_at T c = Some v"
    and only: "\<And>q v. leaf_at T q = Some v \<Longrightarrow> (v, q) \<in> set tbl"
    and inner: "\<And>c q. c \<in> snd ` set tbl \<Longrightarrow> prefix q c \<Longrightarrow> reaches T q"
    and pf: "\<And>c d. c \<in> snd ` set tbl \<Longrightarrow> d \<in> snd ` set tbl \<Longrightarrow> prefix c d \<Longrightarrow> c = d"
    and entry: "(v, c) \<in> set tbl"
    and split: "c = q @ r" "r \<noteq> []"
    and cur: "walk T q = Some cur"
  shows "decode_bits T cur (r @ bs) = v # decode_bits T T bs"
  using split cur
proof (induction r arbitrary: q cur)
  case Nil
  then show ?case by simp
next
  case (Cons b r)
  have c_in: "c \<in> snd ` set tbl"
    using entry by (metis image_eqI snd_conv)
  have "reaches T (q @ [b])"
    by (rule inner[OF c_in]) (simp add: Cons.prems(1))
  then obtain nxt where nxt: "walk T (q @ [b]) = Some nxt"
    by (auto simp: reaches_def)
  have child: "(if b then right cur else left cur) = Some nxt"
    using nxt Cons.prems(3) by (auto simp: walk_append split: option.splits if_splits)
  show ?case
  proof (cases "r = []")
    case True
    then have "leaf_at T (q @ [b]) = Some v"
      using leaves[OF entry] Cons.prems(1) by simp
    then have "is_leaf nxt \<noteq> 0 \<and> val nxt = v"
      using nxt by (simp add: leaf_at_def split: if_splits)
    then show ?thesis
      using child True by simp
  next
    case False
    have "is_leaf nxt = 0"
    proof (rule ccontr)
      assume "is_leaf nxt \<noteq> 0"
      then have "leaf_at T (q @ [b]) = Some (val nxt)"
        using nxt by (simp add: leaf_at_def)
      then have "(val nxt, q @ [b]) \<in> set tbl"
        by (rule only)
      then have "q @ [b] \<in> snd ` set tbl"
        by (metis image_eqI snd_conv)
      moreover have "prefix (q @ [b]) c"
        by (simp add: Cons.prems(1))
      ultimately have "q @ [b] = c"
        using pf c_in by blast
      then show False
        using Cons.prems(1) False by simp
    qed
    moreover have "decode_bits T nxt (r @ bs) = v # decode_bits T T bs"
      by (rule Cons.IH[of "q @ [b]"]) (simp_all add: Cons.prems(1) False nxt)
    ultimately show ?thesis
      using child by simp
  qed
qed

subsection \<open>Round trip\<close>

lemma decode_stream:
  assumes pf: "prefix_free (map snd tbl)"
    and ne: "\<forall>c \<in> set (map snd tbl). 1 \<le> length c"
    and dom: "set stream \<subseteq> fst ` set tbl"
  shows "decode_bits (foldl (\<lambda>t e. insert_path (snd e) (fst e) t) create_node tbl)
           (foldl (\<lambda>t e. insert_path (snd e) (fst e) t) create_node tbl)
           (huffman_bits tbl stream) = stream"
  using dom
proof (induction stream)
  case Nil
  then show ?case by (simp add: huffman_bits_def)
next
  case (Cons v stream)
  let ?T = "foldl (\<lambda>t e. insert_path (snd e) (fst e) t) create_node tbl"
  have dist: "distinct (map snd tbl)"
    using pf by (simp add: prefix_free_def)
  have leaves: "\<And>v c. (v, c) \<in> set tbl \<Longrightarrow> leaf_at ?T c = Some v"
    by (rule leaf_at_build_entry[OF dist])
  have only: "\<And>q v. leaf_at ?T q = Some v \<Longrightarrow> (v, q) \<in> set tbl"
    using leaf_at_build_only[of create_node tbl] by (simp add: leaf_at_create)
  have inner: "\<And>c q. c \<in> snd ` set tbl \<Longrightarrow> prefix q c \<Longrightarrow> reaches ?T q"
    by (rule reaches_build_prefix)
  have pfree: "\<And>c d. c \<in> snd ` set tbl \<Longrightarrow> d \<in> snd ` set tbl \<Longrightarrow> prefix c d \<Longrightarrow> c = d"
    using pf unfolding prefix_free_def set_map by blast
  have "v \<in> fst ` set tbl"
    using Cons.prems by simp
  then obtain c where c: "map_of tbl v = Some c"
    by (metis map_of_eq_None_iff option.exhaust)
  then have entry: "(v, c) \<in> set tbl"
    by (rule map_of_SomeD)
  then have "c \<noteq> []"
    using ne by force
  have bits: "huffman_bits tbl (v # stream) = c @ huffman_bits tbl stream"
    by (simp add: huffman_bits_def code_for_def c)
  have "decode_bits ?T ?T (c @ huffman_bits tbl stream) = v # decode_bits ?T ?T (huffman_bits tbl stream)"
    by (rule decode_code[where tbl = tbl and q = "[]" and r = c and c = c,
          OF leaves only inner pfree entry])
       (simp_all add: \<open>c \<noteq> []\<close>)
  then show ?case
    using Cons.IH Cons.prems by (simp add: bits)
qed

lemma map_data_bit_packed:
  assumes "(length bits + length pad) mod 8 = 0"
  shows "map (data_bit (load (pack_bits (bits @ pad)) m)) [0..<length bits] = bits"
proof (rule nth_equalityI)
  show "length (map (data_bit (load (pack_bits (bits @ pad)) m)) [0..<length bits]) = length bits"
    by simp
next
  fix i assume "i < length (map (data_bit (load (pack_bits (bits @ pad)) m)) [0..<length bits])"
  then have i: "i < length bits" by simp
  then have "data_bit (load (pack_bits (bits @ pad)) m) i = (bits @ pad) ! i"
    using assms by (intro data_bit_packed) simp_all
  then show "map (data_bit (load (pack_bits (bits @ pad)) m)) [0..<length bits] ! i = bits ! i"
    using i by (simp add: nth_append)
qed

text \<open>
  Claim C4, as amended. Take a prefix-free code table whose codes are between 1 and 64
  bits long, a byte sequence over the values of the table, and between 0 and 7 padding
  bits of any value that fill the last byte; let the payload be shorter than \<open>2 ^ 29\<close>
  bytes, so that its bit count fits \<^verbatim>\<open>size_t\<close>. Then \<^verbatim>\<open>decode_huffman_data\<close> on the
  packed payload and the serialised table succeeds, reports the length of the byte
  sequence, and has stored exactly the byte sequence from index 0 of the output; the
  padding bits produce no output.
\<close>

theorem huffman_round_trip:
  assumes pf: "prefix_free (map snd tbl)"
    and len: "\<forall>c \<in> set (map snd tbl). 1 \<le> length c \<and> length c \<le> 64"
    and dom: "set stream \<subseteq> fst ` set tbl"
    and pad: "length pad < 8" "(length (huffman_bits tbl stream) + length pad) mod 8 = 0"
    and size: "length (pack_bits (huffman_bits tbl stream @ pad)) < 2 ^ 29"
  shows "decode_huffman_data
           (Some (load (pack_bits (huffman_bits tbl stream @ pad)) m))
           (length (pack_bits (huffman_bits tbl stream @ pad)))
           (Some (load (huffman_table_bytes (length pad) tbl) m'))
           (length (huffman_table_bytes (length pad) tbl)) outp
         = \<lparr>huff_status = ESP_OK, huff_output = load stream outp,
            huff_output_len = length stream\<rparr>"
proof (cases "stream = []")
  case True
  then have "pad = []"
    using pad by (simp add: huffman_bits_def)
  then show ?thesis
    using True by (simp add: decode_huffman_data_def huffman_bits_def pack_bits_def load_Nil)
next
  case False
  let ?bits = "huffman_bits tbl stream"
  let ?payload = "pack_bits (?bits @ pad)"
  let ?table = "huffman_table_bytes (length pad) tbl"
  let ?dict = "load ?table m'"
  let ?T = "foldl (\<lambda>t e. insert_path (snd e) (fst e) t) create_node tbl"
  obtain v rest where stream: "stream = v # rest"
    using False by (cases stream) auto
  have "v \<in> fst ` set tbl"
    using dom stream by simp
  then obtain c where c: "map_of tbl v = Some c"
    by (metis map_of_eq_None_iff option.exhaust)
  then have "(v, c) \<in> set tbl"
    by (rule map_of_SomeD)
  then have "1 \<le> length c"
    using len by force
  then have "c \<noteq> []"
    by auto
  then have bits_pos: "0 < length ?bits"
    by (simp add: stream huffman_bits_def code_for_def c)
  have eight: "8 * length ?payload = length ?bits + length pad"
    using mult_div_mod_eq[of 8 "length ?bits + length pad"] pad(2)
    by (simp add: length_pack_bits)
  have "0 < 8 * length ?payload"
    using eight bits_pos by linarith
  then have data_len: "length ?payload \<noteq> 0"
    by simp
  have dict_len: "length ?table \<noteq> 0"
    by (simp add: huffman_table_bytes_def)
  have padding: "unat (?dict 0) = length pad"
    using pad(1) by (simp add: load_def huffman_table_bytes_def unat_of_nat)
  have total: "to_size_t (int (length ?payload) * 8 - int (unat (?dict 0))) = length ?bits"
  proof -
    have "int (length ?payload) * 8 - int (length pad) = int (length ?bits)"
      using eight by simp
    moreover have "int (length ?bits) < 2 ^ 32"
      using eight size by simp
    ultimately show ?thesis
      by (simp add: to_size_t_def padding)
  qed
  have tree: "build_tree ?dict (length ?table) 1 create_node = ?T"
    by (rule build_tree_table)
      (use len in \<open>auto simp: load_def huffman_table_bytes_def\<close>)
  have dec: "decode_bits ?T ?T ?bits = stream"
    by (rule decode_stream[OF pf _ dom]) (use len in simp)
  have loop: "huffman_loop (load ?payload m) (length ?bits) ?T ?T outp 0 0 =
      (load stream outp, length stream)"
    unfolding huffman_loop_bits map_data_bit_packed[OF pad(2)] dec
    by (simp add: store_at_0)
  have total': "to_size_t (int (length ?payload) * 8 - uint (?dict 0)) = length ?bits"
    using total by simp
  have tree': "build_tree ?dict (length ?table) (Suc 0) create_node = ?T"
    using tree by simp
  show ?thesis
    using data_len dict_len
    by (simp add: decode_huffman_data_def Let_def total' tree' loop)
qed

lemma abc_prefix_free: "prefix_free (map snd abc_table)"
  by (simp add: prefix_free_def abc_table_def)

lemma abc_bits: "huffman_bits abc_table [0x41, 0x42, 0x43] = [False, True, False, True, True]"
  by (simp add: huffman_bits_def code_for_def abc_table_def)

theorem huffman_round_trip_witness:
  "prefix_free (map snd abc_table)
   \<and> length [False, False, False] < 8
   \<and> (length (huffman_bits abc_table [0x41, 0x42, 0x43]) + length [False, False, False]) mod 8 = 0
   \<and> pack_bits (huffman_bits abc_table [0x41, 0x42, 0x43] @ [False, False, False]) = [0x58]
   \<and> decode_huffman_data
        (Some (load (pack_bits (huffman_bits abc_table [0x41, 0x42, 0x43] @ [False, False, False]))
           (\<lambda>_. 0)))
        (length (pack_bits (huffman_bits abc_table [0x41, 0x42, 0x43] @ [False, False, False])))
        (Some (load (huffman_table_bytes (length [False, False, False]) abc_table) (\<lambda>_. 0)))
        (length (huffman_table_bytes (length [False, False, False]) abc_table)) (\<lambda>_. 0)
      = \<lparr>huff_status = ESP_OK, huff_output = load [0x41, 0x42, 0x43] (\<lambda>_. 0),
         huff_output_len = length [0x41, 0x42, 0x43 :: byte]\<rparr>"
proof -
  have len: "\<forall>c \<in> set (map snd abc_table). 1 \<le> length c \<and> length c \<le> 64"
    by (simp add: abc_table_def)
  have dom: "set [0x41, 0x42, 0x43] \<subseteq> fst ` set abc_table"
    by (simp add: abc_table_def)
  have p1: "length [False, False, False] < 8"
    by simp
  have p2: "(length (huffman_bits abc_table [0x41, 0x42, 0x43]) + length [False, False, False]) mod 8 = 0"
    by (simp add: abc_bits)
  have packed: "pack_bits (huffman_bits abc_table [0x41, 0x42, 0x43] @ [False, False, False]) = [0x58]"
    by code_simp
  have size: "length (pack_bits (huffman_bits abc_table [0x41, 0x42, 0x43] @ [False, False, False])) < 2 ^ 29"
    by (simp add: packed)
  show ?thesis
    using huffman_round_trip[OF abc_prefix_free len dom p1 p2 size, of "\<lambda>_. 0" "\<lambda>_. 0" "\<lambda>_. 0"]
      abc_prefix_free p1 p2 packed
    by blast
qed

lemma long_code_prefix_free: "prefix_free (map snd long_code_table)"
  by (simp add: prefix_free_def long_code_table_def)

text \<open>
  Claim C4 as stated fails for a code longer than 64 bits. The table with the single
  65-bit code \<open>1 0\<dots>0\<close> for \<open>0xAA\<close> is prefix-free; its nine code bytes are
  \<open>01 00 \<dots> 00\<close>, and the payload for the sequence \<open>[0xAA]\<close> is \<open>80 00 \<dots> 00\<close> with 7
  padding bits. The decoder accumulates the code in a \<^verbatim>\<open>uint64_t\<close>, from which the
  leading byte is shifted out, so the code is inserted as a path of zeros; the first
  payload bit then runs off the tree and nothing is decoded.
\<close>

theorem long_code_not_decoded:
  "prefix_free (map snd long_code_table)
   \<and> 0xAA \<in> fst ` set long_code_table
   \<and> (length (huffman_bits long_code_table [0xAA]) + length (replicate 7 False)) mod 8 = 0
   \<and> length (pack_bits (huffman_bits long_code_table [0xAA] @ replicate 7 False)) = 9
   \<and> length (huffman_table_bytes 7 long_code_table) = 12
   \<and> huff_output_len (decode_huffman_data
        (Some (load (pack_bits (huffman_bits long_code_table [0xAA] @ replicate 7 False)) (\<lambda>_. 0))) 9
        (Some (load (huffman_table_bytes 7 long_code_table) (\<lambda>_. 0))) 12 (\<lambda>_. 0)) = 0"
proof -
  have a: "0xAA \<in> fst ` set long_code_table"
    by (simp add: long_code_table_def)
  have b: "(length (huffman_bits long_code_table [0xAA]) + length (replicate 7 False)) mod 8 = 0"
    by (simp add: huffman_bits_def code_for_def long_code_table_def)
  have c: "length (pack_bits (huffman_bits long_code_table [0xAA] @ replicate 7 False)) = 9"
    by (simp add: length_pack_bits huffman_bits_def code_for_def long_code_table_def)
  have d: "length (huffman_table_bytes 7 long_code_table) = 12"
    by (simp add: huffman_table_bytes_def length_table_entry_bytes long_code_table_def)
  have e: "huff_output_len (decode_huffman_data
        (Some (load (pack_bits (huffman_bits long_code_table [0xAA] @ replicate 7 False)) (\<lambda>_. 0))) 9
        (Some (load (huffman_table_bytes 7 long_code_table) (\<lambda>_. 0))) 12 (\<lambda>_. 0)) = 0"
    by code_simp
  show ?thesis
    using long_code_prefix_free a b c d e by blast
qed

section \<open>Block decoder\<close>

text \<open>
  On the run-length and the Huffman path the decode buffer is never changed at or beyond
  the capacity \<open>width * block_height\<close>: the last stage on both paths is the run-length
  decoder, which tests the capacity before each run.
\<close>

lemma decode_block_in_capacity:
  assumes "ptr_add data (unat (offsets block)) 0 = GFX_AAF_ENCODING_RLE
         \<or> ptr_add data (unat (offsets block)) 0 = GFX_AAF_ENCODING_HUFFMAN"
    and "to_size_t (w * bh) \<le> i"
  shows "dec_buffer (gfx_anim_decode_block jpeg heap data offsets hdr block decode_buffer
           w bh swap_color) i = decode_buffer i"
  using assms
  by (auto simp add: gfx_anim_decode_block_def gfx_aaf_rle_decode_def rle_loop_bounded Let_def
      GFX_AAF_ENCODING_RLE_def GFX_AAF_ENCODING_HUFFMAN_def split: option.splits)

text \<open>
  Claim C3. The claim asks that a block whose decoded output exceeds the capacity
  \<open>width * block_height\<close> fails without a byte ever being written at an index at or
  above the capacity. For a block of one pixel (capacity 1) with encoding tag 1, padding 6
  and the data byte 0, the two data bits decode to two bytes \<open>0x41\<close>. The block fails, but
  only after the Huffman engine has stored the second byte at index 1 of the scratch
  buffer, which was allocated with one byte.
\<close>

theorem huffman_block_overflows_scratch:
  "dec_status (gfx_anim_decode_block jpeg (Some (\<lambda>_. 0)) (huffman_block 1 6 0) (\<lambda>_. 0)
      one_pixel_header 0 (\<lambda>_. 0) 1 1 False) = ESP_FAIL
   \<and> map_option (\<lambda>scratch. scratch 1)
       (dec_scratch (gfx_anim_decode_block jpeg (Some (\<lambda>_. 0)) (huffman_block 1 6 0) (\<lambda>_. 0)
          one_pixel_header 0 (\<lambda>_. 0) 1 1 False)) = Some 0x41"
  by (simp add: gfx_anim_decode_block_def gfx_aaf_huffman_decode_def decode_huffman_data_def
      huffman_block_def one_pixel_header_def load_def ptr_add_def Let_def build_tree.simps
      huffman_loop.simps create_node_def to_size_t_def GFX_AAF_ENCODING_RLE_def
      GFX_AAF_ENCODING_HUFFMAN_def)

section \<open>Compositor\<close>

text \<open>
  Claim C1. The claim asks for a perfect mirror image at every bit depth. At depth 4, the
  byte \<open>0x12\<close> holds the indices 1 and 2, so the source row is red, blue. With mirroring
  on, offset 0 and a destination of four pixels, the mirror of \<open>x = 0\<close> is at 3 and the
  mirror of \<open>x = 1\<close> is at 2. The renderer writes red, blue, red, red: the mirrored store
  for the second pixel of a byte writes the colour of the first.
\<close>

theorem render_4bit_mirror_repeats_first_pixel:
  "map (fst (gfx_anim_render_4bit_pixels (\<lambda>_. 0) 4 (load [0x12] (\<lambda>_. 0)) 2 two_colour_header
          (\<lambda>_. 0xFFFFFFFF) \<lparr>area_x1 = 0, area_y1 = 0, area_x2 = 2, area_y2 = 1\<rparr>
          False True 0 0)) [0, 1, 2, 3]
   = [0xF800, 0x001F, 0xF800, 0xF800]"
  by (simp add: gfx_anim_render_4bit_pixels_def render_4bit_pixel_def for_upto.simps
      for_by2.simps two_colour_header_def palette_lookup_def mirror_write_def
      gfx_aaf_parse_palette_def rgb565_of_entry_def load_def Let_def)

text \<open>The 8-bit renderer on the same two pixels writes red, blue, blue, red.\<close>

lemma render_8bit_mirror_example:
  "map (fst (gfx_anim_render_8bit_pixels (\<lambda>_. 0) 4 (load [1, 2] (\<lambda>_. 0)) 2 two_colour_header
          (\<lambda>_. 0xFFFFFFFF) \<lparr>area_x1 = 0, area_y1 = 0, area_x2 = 2, area_y2 = 1\<rparr>
          False True 0 0)) [0, 1, 2, 3]
   = [0xF800, 0x001F, 0x001F, 0xF800]"
  by (simp add: gfx_anim_render_8bit_pixels_def render_8bit_pixel_def for_upto.simps
      two_colour_header_def palette_lookup_def mirror_write_def gfx_aaf_parse_palette_def
      rgb565_of_entry_def load_def Let_def)

text \<open>
  At depths 8 and 24 the mirror image is exact. A counted iteration preserves an invariant
  that each step carries from \<open>i\<close> to \<open>i + 1\<close>:
\<close>

lemma for_upto_rule:
  assumes "lo \<le> n" and "P lo s"
    and "\<And>i s. lo \<le> i \<Longrightarrow> i < n \<Longrightarrow> P i s \<Longrightarrow> P (i + 1) (body i s)"
  shows "P n (for_upto lo n body s)"
  using assms
proof (induction lo n body s rule: for_upto.induct)
  case (1 i n body s)
  show ?case
  proof (cases "i < n")
    case True
    have "P n (for_upto (i + 1) n body (body i s))"
    proof (rule "1.IH"[OF True])
      show "i + 1 \<le> n" using True by simp
      show "P (i + 1) (body i s)" using "1.prems"(2,3) True by simp
      show "\<And>j t. i + 1 \<le> j \<Longrightarrow> j < n \<Longrightarrow> P j t \<Longrightarrow> P (j + 1) (body j t)"
        using "1.prems"(3) by simp
    qed
    then show ?thesis using True by (subst for_upto.simps) simp
  next
    case False
    then have "i = n" using "1.prems"(1) by simp
    then show ?thesis using "1.prems"(2) by (subst for_upto.simps) simp
  qed
qed

text \<open>
  One pixel step stores the same colour at \<open>x\<close> and at its mirror position. Stores of
  later steps never touch a pair that was written before, given a destination of at least
  \<open>2 * width + mirror_offset\<close> columns and a clip no wider than the frame.
\<close>

lemma mirrored_step:
  assumes good: "mirrored ds W ofs w Y X d"
    and geo: "0 \<le> ofs" "2 * W + ofs \<le> ds" "w \<le> W"
    and pos: "0 \<le> Y" "0 \<le> X" "X < w"
  shows "mirrored ds W ofs w Y (X + 1) (d(Y * ds + X := col, Y * ds + (W + ofs + W - 1 - X) := col))"
  unfolding mirrored_def
proof (intro allI impI)
  fix y x
  assume a: "0 \<le> y \<and> 0 \<le> x \<and> x < w \<and> (y < Y \<or> (y = Y \<and> x < X + 1))"
  let ?d = "d(Y * ds + X := col, Y * ds + (W + ofs + W - 1 - X) := col)"
  show "?d (y * ds + (W + ofs + W - 1 - x)) = ?d (y * ds + x)"
  proof (cases "y = Y \<and> x = X")
    case True
    then show ?thesis by simp
  next
    case False
    have old: "d (y * ds + (W + ofs + W - 1 - x)) = d (y * ds + x)"
      using good a False unfolding mirrored_def by auto
    have rows: "y * ds + ds \<le> Y * ds" if "y \<noteq> Y"
    proof -
      have "y + 1 \<le> Y" using a that by auto
      moreover have "0 \<le> ds" using geo pos a by linarith
      ultimately have "(y + 1) * ds \<le> Y * ds"
        by (simp only: mult_right_mono)
      then show ?thesis
        by (simp add: distrib_right)
    qed
    have far: "y * ds + (W + ofs + W - 1 - x) \<noteq> Y * ds + X"
        "y * ds + (W + ofs + W - 1 - x) \<noteq> Y * ds + (W + ofs + W - 1 - X)"
        "y * ds + x \<noteq> Y * ds + X"
        "y * ds + x \<noteq> Y * ds + (W + ofs + W - 1 - X)"
      using a False geo pos rows by (cases "y = Y"; auto)+
    show ?thesis
      using old far by simp
  qed
qed

lemma mirrored_rows:
  fixes body :: "int \<Rightarrow> int \<Rightarrow> 's \<Rightarrow> 's" and proj :: "'s \<Rightarrow> pixels"
  assumes step: "\<And>y x s. 0 \<le> y \<Longrightarrow> 0 \<le> x \<Longrightarrow> x < w \<Longrightarrow>
             \<exists>col. proj (body y x s) =
               (proj s)(y * ds + x := col, y * ds + (W + ofs + W - 1 - x) := col)"
    and geo: "0 \<le> ofs" "2 * W + ofs \<le> ds" "w \<le> W"
    and h: "0 \<le> h"
  shows "mirrored ds W ofs w h 0 (proj (for_upto 0 h (\<lambda>y. for_upto 0 w (body y)) s))"
proof (rule for_upto_rule[where P = "\<lambda>Y s. mirrored ds W ofs w Y 0 (proj s)"])
  show "0 \<le> h" by (rule h)
  show "mirrored ds W ofs w 0 0 (proj s)"
    by (auto simp add: mirrored_def)
next
  fix Y :: int and t :: 's
  assume Y: "0 \<le> Y" and good: "mirrored ds W ofs w Y 0 (proj t)"
  show "mirrored ds W ofs w (Y + 1) 0 (proj (for_upto 0 w (body Y) t))"
  proof (cases "0 \<le> w")
    case True
    have "mirrored ds W ofs w Y w (proj (for_upto 0 w (body Y) t))"
    proof (rule for_upto_rule[where P = "\<lambda>X s. mirrored ds W ofs w Y X (proj s)"])
      show "0 \<le> w" by (rule True)
      show "mirrored ds W ofs w Y 0 (proj t)" by (rule good)
    next
      fix X :: int and u :: 's
      assume X: "0 \<le> X" "X < w" and g: "mirrored ds W ofs w Y X (proj u)"
      obtain col where "proj (body Y X u) =
          (proj u)(Y * ds + X := col, Y * ds + (W + ofs + W - 1 - X) := col)"
        using step[OF Y X] by blast
      then show "mirrored ds W ofs w Y (X + 1) (proj (body Y X u))"
        using mirrored_step[OF g geo Y X] by simp
    qed
    then have row: "\<And>y x. 0 \<le> y \<Longrightarrow> 0 \<le> x \<Longrightarrow> x < w \<Longrightarrow> y < Y \<or> y = Y \<Longrightarrow>
        proj (for_upto 0 w (body Y) t) (y * ds + (W + ofs + W - 1 - x)) =
        proj (for_upto 0 w (body Y) t) (y * ds + x)"
      unfolding mirrored_def by blast
    show ?thesis
      unfolding mirrored_def
    proof (intro allI impI)
      fix y x
      assume a: "0 \<le> y \<and> 0 \<le> x \<and> x < w \<and> (y < Y + 1 \<or> (y = Y + 1 \<and> x < 0))"
      then have "y < Y \<or> y = Y" by auto
      then show "proj (for_upto 0 w (body Y) t) (y * ds + (W + ofs + W - 1 - x)) =
        proj (for_upto 0 w (body Y) t) (y * ds + x)"
        using a row by blast
    qed
  next
    case False
    then show ?thesis
      unfolding mirrored_def by auto
  qed
qed

text \<open>The steps of the two renderers, with mirroring on:\<close>

lemma render_8bit_pixel_writes:
  assumes "0 \<le> x" "x < w" "w \<le> uint (width hdr)" "0 \<le> mirror_ofs" "0 \<le> dest_x_offset"
    and "dest_x_offset + 2 * uint (width hdr) + mirror_ofs \<le> dest_stride"
  shows "\<exists>col. fst (render_8bit_pixel dest_stride src_buf src_stride hdr swap_color True
             mirror_ofs dest_x_offset y x st) =
           (fst st)(y * dest_stride + x := col,
                    y * dest_stride + (uint (width hdr) + mirror_ofs + uint (width hdr) - 1 - x) := col)"
  using assms
  by (cases st) (simp add: render_8bit_pixel_def mirror_write_def Let_def, blast)

lemma render_24bit_pixel_writes:
  assumes "0 \<le> x" "x < w" "w \<le> src_stride" "0 \<le> mirror_ofs" "0 \<le> dest_x_offset"
    and "dest_x_offset + 2 * src_stride + mirror_ofs \<le> dest_stride"
  shows "\<exists>col. render_24bit_pixel dest_stride src_buf src_stride True
             mirror_ofs dest_x_offset y x d =
           d(y * dest_stride + x := col,
             y * dest_stride + (src_stride + mirror_ofs + src_stride - 1 - x) := col)"
  using assms
  by (simp add: render_24bit_pixel_def mirror_write_def Let_def, blast)

text \<open>
  After \<^verbatim>\<open>gfx_anim_render_8bit_pixels\<close> and \<^verbatim>\<open>gfx_anim_render_24bit_pixels\<close>, every
  pixel of the clip has its copy at the mirror position.
\<close>

lemma render_8bit_mirror:
  assumes clip: "area_x2 clip_area - area_x1 clip_area \<le> uint (width hdr)"
    and geo: "0 \<le> mirror_ofs" "0 \<le> dest_x_offset"
      "dest_x_offset + 2 * uint (width hdr) + mirror_ofs \<le> dest_stride"
    and y: "0 \<le> y" "y < area_y2 clip_area - area_y1 clip_area"
    and x: "0 \<le> x" "x < area_x2 clip_area - area_x1 clip_area"
  shows "fst (gfx_anim_render_8bit_pixels dest_buf dest_stride src_buf src_stride hdr
                palette_cache clip_area swap_color True mirror_ofs dest_x_offset)
           (y * dest_stride + (uint (width hdr) + mirror_ofs + uint (width hdr) - 1 - x))
         = fst (gfx_anim_render_8bit_pixels dest_buf dest_stride src_buf src_stride hdr
                palette_cache clip_area swap_color True mirror_ofs dest_x_offset)
           (y * dest_stride + x)"
proof -
  let ?w = "area_x2 clip_area - area_x1 clip_area"
  let ?h = "area_y2 clip_area - area_y1 clip_area"
  have "mirrored dest_stride (uint (width hdr)) mirror_ofs ?w ?h 0
          (fst (for_upto 0 ?h (\<lambda>y. for_upto 0 ?w
             (render_8bit_pixel dest_stride src_buf src_stride hdr swap_color True
                mirror_ofs dest_x_offset y)) (dest_buf, palette_cache)))"
  proof (rule mirrored_rows)
    show "0 \<le> mirror_ofs" by (rule geo)
    show "2 * uint (width hdr) + mirror_ofs \<le> dest_stride" using geo by linarith
    show "?w \<le> uint (width hdr)" by (rule clip)
    show "0 \<le> ?h" using y by linarith
  next
    fix y x :: int and s :: "pixels \<times> (nat \<Rightarrow> 32 word)"
    assume "0 \<le> y" "0 \<le> x" "x < ?w"
    then show "\<exists>col. fst (render_8bit_pixel dest_stride src_buf src_stride hdr swap_color True
             mirror_ofs dest_x_offset y x s) =
           (fst s)(y * dest_stride + x := col,
                   y * dest_stride + (uint (width hdr) + mirror_ofs + uint (width hdr) - 1 - x) := col)"
      using render_8bit_pixel_writes[OF _ _ clip geo] by blast
  qed
  then show ?thesis
    using y x unfolding mirrored_def gfx_anim_render_8bit_pixels_def Let_def by auto
qed

lemma render_24bit_mirror:
  assumes clip: "area_x2 clip_area - area_x1 clip_area \<le> src_stride"
    and geo: "0 \<le> mirror_ofs" "0 \<le> dest_x_offset"
      "dest_x_offset + 2 * src_stride + mirror_ofs \<le> dest_stride"
    and y: "0 \<le> y" "y < area_y2 clip_area - area_y1 clip_area"
    and x: "0 \<le> x" "x < area_x2 clip_area - area_x1 clip_area"
  shows "gfx_anim_render_24bit_pixels dest_buf dest_stride src_buf src_stride clip_area
           swap_color True mirror_ofs dest_x_offset
           (y * dest_stride + (src_stride + mirror_ofs + src_stride - 1 - x))
         = gfx_anim_render_24bit_pixels dest_buf dest_stride src_buf src_stride clip_area
           swap_color True mirror_ofs dest_x_offset
           (y * dest_stride + x)"
proof -
  let ?w = "area_x2 clip_area - area_x1 clip_area"
  let ?h = "area_y2 clip_area - area_y1 clip_area"
  have "mirrored dest_stride src_stride mirror_ofs ?w ?h 0
          (for_upto 0 ?h (\<lambda>y. for_upto 0 ?w
             (render_24bit_pixel dest_stride src_buf src_stride True
                mirror_ofs dest_x_offset y)) dest_buf)"
  proof (rule mirrored_rows[where proj = "\<lambda>d. d"])
    show "0 \<le> mirror_ofs" by (rule geo)
    show "2 * src_stride + mirror_ofs \<le> dest_stride" using geo by linarith
    show "?w \<le> src_stride" by (rule clip)
    show "0 \<le> ?h" using y by linarith
  next
    fix y x :: int and s :: pixels
    assume "0 \<le> y" "0 \<le> x" "x < ?w"
    then show "\<exists>col. render_24bit_pixel dest_stride src_buf src_stride True
             mirror_ofs dest_x_offset y x s =
           s(y * dest_stride + x := col,
             y * dest_stride + (src_stride + mirror_ofs + src_stride - 1 - x) := col)"
      using render_24bit_pixel_writes[OF _ _ clip geo] by blast
  qed
  then show ?thesis
    using y x unfolding mirrored_def gfx_anim_render_24bit_pixels_def Let_def by auto
qed

section \<open>Frame decode cache\<close>








subsection \<open>Coordinates\<close>












subsection \<open>Geometry of a request\<close>

text \<open>
  A request touches a block exactly when the columns it shares with the placed frame and
  the rows it shares with the block are both non-empty intervals.
\<close>

lemma request_touches_iff:
  "request_touches hdr ox oy x1 y1 x2 y2 b \<longleftrightarrow>
     max x1 (sint ox) < min x2 (sint ox + uint (width hdr)) \<and>
     max (max y1 (sint oy)) (sint oy + b * uint (block_height hdr))
       < min (min y2 (sint oy + uint (height hdr)))
           (sint oy + (if b = uint (blocks hdr) - 1 then uint (height hdr)
                       else (b + 1) * uint (block_height hdr)))"
  (is "?l \<longleftrightarrow> ?r")
proof
  define e where "e = (if b = uint (blocks hdr) - 1 then uint (height hdr)
                       else (b + 1) * uint (block_height hdr))"
  assume ?l
  then obtain x y where "x1 \<le> x" "x < x2" "y1 \<le> y" "y < y2"
    "0 \<le> x - sint ox" "x - sint ox < uint (width hdr)"
    "0 \<le> y - sint oy" "y - sint oy < uint (height hdr)"
    "b * uint (block_height hdr) \<le> y - sint oy"
    "y - sint oy < e"
    unfolding request_touches_def block_span_def e_def by auto
  then show ?r unfolding e_def[symmetric] by linarith
next
  define e where "e = (if b = uint (blocks hdr) - 1 then uint (height hdr)
                       else (b + 1) * uint (block_height hdr))"
  assume r: ?r
  let ?x = "max x1 (sint ox)"
  let ?y = "max (max y1 (sint oy)) (sint oy + b * uint (block_height hdr))"
  from r have r1: "?x < min x2 (sint ox + uint (width hdr))"
    and r2: "?y < min (min y2 (sint oy + uint (height hdr))) (sint oy + e)"
    unfolding e_def by blast+
  have "x1 \<le> ?x" "?x < x2" "0 \<le> ?x - sint ox" "?x - sint ox < uint (width hdr)"
    using r1 by linarith+
  moreover have "y1 \<le> ?y" "?y < y2" "0 \<le> ?y - sint oy" "?y - sint oy < uint (height hdr)"
    "b * uint (block_height hdr) \<le> ?y - sint oy" "?y - sint oy < e"
    using r2 by linarith+
  ultimately have "?x \<in> {x1..<x2}" "?y \<in> {y1..<y2}"
    "?x - sint ox \<in> {0..<uint (width hdr)}"
    "?y - sint oy \<in> {0..<uint (height hdr)}"
    "?y - sint oy \<in> block_span hdr b"
    unfolding block_span_def e_def by simp_all
  then show ?l unfolding request_touches_def by blast
qed












subsection \<open>Reuse of the decoded block\<close>


text \<open>
  The theorem at a frame of two blocks: a request for the second row touches only block 1,
  block 0 is skipped, and the two requests decode once.
\<close>

lemma two_blocks: "0 \<le> b \<Longrightarrow> b < 2 \<Longrightarrow> b \<noteq> 1 \<Longrightarrow> b = (0::int)"
  by linarith





lemma to_coord_small [simp]:
  "to_coord 0 = 0" "to_coord 1 = 1" "to_coord 2 = 2" "to_coord 3 = 3"
  by (simp_all add: to_coord_def)

lemma to_int_small [simp]:
  "to_int 0 = 0" "to_int 1 = 1" "to_int 2 = 2" "to_int 3 = 3" "to_int (- 1) = - 1"
  by (simp_all add: to_int_def)




text \<open>
  The two conditions on the request and on the frame are needed. A request that is 40000
  columns wide touches the only block of a frame of that width, but its right corner is
  stored as \<open>-25536\<close> in \<^verbatim>\<open>clip_object.x2\<close>, and the routine returns before the block
  iteration without a decode.
\<close>

lemma wide_request_returns_early:
  "blocks_cover (header (frame wide_anim))
   \<and> touches_only wide_anim 0 0 0 0 40000 1 0
   \<and> \<not> request_fits 0 0 40000 1
   \<and> last_block (frame wide_anim) \<noteq> 0
   \<and> gfx_draw_animation no_jpeg no_heap wide_anim 0 0 0 0 40000 1 (\<lambda>_. 0) False = None"
proof -
  have "touches_only wide_anim 0 0 0 0 40000 1 0"
    unfolding touches_only_def request_touches_iff
    by (auto simp add: wide_anim_def two_block_header_def)
  moreover have "to_coord 40000 = - 25536"
    by (simp add: to_coord_def)
  ultimately show ?thesis
    by (simp add: blocks_cover_def request_fits_def wide_anim_def two_block_header_def
        gfx_draw_animation_def object_clip_def Let_def)
qed

text \<open>
  In a frame of three rows whose header declares two blocks of one row, the final block
  spans the rows 1 and 2. A request for row 2 touches only this block, and the routine
  skips it, because the row lies beyond the first \<open>block_height\<close> rows of the block.
\<close>

lemma tall_last_block_is_skipped:
  "\<not> blocks_cover (header (frame tall_anim))
   \<and> touches_only tall_anim 0 0 0 2 1 3 1
   \<and> request_fits 0 2 1 3
   \<and> last_block (frame tall_anim) \<noteq> 1
   \<and> decode_count (gfx_draw_animation no_jpeg no_heap tall_anim 0 0 0 2 1 3 (\<lambda>_. 0) False) = 0"
proof -
  have "touches_only tall_anim 0 0 0 2 1 3 1"
    unfolding touches_only_def request_touches_iff
    by (auto simp add: tall_anim_def two_block_header_def dest: two_blocks)
  moreover have "gfx_draw_animation no_jpeg no_heap tall_anim 0 0 0 2 1 3 (\<lambda>_. 0) False =
     Some \<lparr>ds_dest = (\<lambda>_. 0), ds_buffer = (\<lambda>_. 0), ds_cache = (\<lambda>_. 0xFFFFFFFF),
           ds_last_block = - 1, ds_decodes = []\<rparr>"
    by (simp add: gfx_draw_animation_def tall_anim_def two_block_header_def object_clip_def
      for_upto.simps draw_block_def block_skipped_def block_clip_def block_start_y_def Let_def)
  ultimately show ?thesis
    by (simp add: blocks_cover_def request_fits_def decode_count_def tall_anim_def
        two_block_header_def)
qed

end
